theory Spec2Isabelle
  imports Complex_Main
begin

section \<open>Configuration (\<open>DEFAULT_CONFIG\<close>)\<close>

text \<open>
  The development follows \<^verbatim>\<open>src/WastemeterDemo.jsx\<close>. JavaScript numbers that only
  ever hold integers (second counters, thresholds, dwell ticks, indices, milliseconds)
  are \<open>int\<close>. The results of \<^verbatim>\<open>Math.random()\<close>, the weights and the arithmetic on them
  are doubles: each is the \<open>real\<close> it denotes, and every multiplication, addition and
  subtraction on them is rounded to the nearest double by \<open>fl\<close>. Every random draw
  is an explicit argument of the function that consumes it. The clock (\<^verbatim>\<open>Date.now()\<close>, the time string of a log entry), the
  reduced-motion preference and the capabilities of the browser are arguments too.
  React is taken to run the state updater of the interval callback once per interval
  and the effects once after each render, as in a production build.
\<close>

record pattern =
  key :: string
  label :: string
  waste :: bool

record thresholds =
  warn :: int
  high :: int
  critical :: int

record config =
  tickMs :: int
  cfg_thresholds :: thresholds
  patterns :: "pattern list"
  targetSessionSec :: int

definition DEFAULT_CONFIG :: config where
  "DEFAULT_CONFIG =
     \<lparr> tickMs = 1000,
       cfg_thresholds = \<lparr> warn = 10, high = 25, critical = 45 \<rparr>,
       patterns =
         [ \<lparr> key = ''FOCUSED'', label = ''Focused'', waste = False \<rparr>,
           \<lparr> key = ''SOCIALIZING'', label = ''Socializing'', waste = True \<rparr>,
           \<lparr> key = ''IDLING'', label = ''Idling'', waste = True \<rparr>,
           \<lparr> key = ''NON_LEARNING_CONTENT'', label = ''Non-learning Content'', waste = True \<rparr>,
           \<lparr> key = ''AWAY_FROM_SEAT'', label = ''Away from Seat'', waste = True \<rparr>,
           \<lparr> key = ''EATING'', label = ''Eating'', waste = True \<rparr>,
           \<lparr> key = ''RUSHING'', label = ''Rushing'', waste = False \<rparr>,
           \<lparr> key = ''SKIPPING_RECOMMENDED_LESSON'', label = ''Skipping Lesson'', waste = False \<rparr>,
           \<lparr> key = ''CHEATING'', label = ''Cheating'', waste = True \<rparr> ],
       targetSessionSec = 8 * 60 \<rparr>"

section \<open>Severity (\<open>getSeverity\<close>)\<close>

text \<open>The five severity strings \<^verbatim>\<open>"ok"\<close>, \<^verbatim>\<open>"mild"\<close>, \<^verbatim>\<open>"warn"\<close>, \<^verbatim>\<open>"high"\<close>,
  \<^verbatim>\<open>"critical"\<close>, the keys of \<^verbatim>\<open>severityStyles\<close>.\<close>

datatype severity = Ok | Mild | Warn | High | Critical

definition getSeverity :: "int \<Rightarrow> thresholds \<Rightarrow> bool \<Rightarrow> severity" where
  "getSeverity secondsInPattern ths isWaste =
     (if \<not> isWaste then Ok
      else if secondsInPattern \<ge> critical ths then Critical
      else if secondsInPattern \<ge> high ths then High
      else if secondsInPattern \<ge> warn ths then Warn
      else Mild)"


section \<open>Double arithmetic\<close>

text \<open>JavaScript numbers are IEEE 754 binary64 values. A finite double is an integer
  multiple \<open>m * u\<close> of a spacing \<open>u\<close>, a power of two not below \<open>2^-1074\<close>, with
  \<open>\<bar>m\<bar> < 2^53\<close>. The result of an arithmetic operation is the exact result rounded to
  the nearest double, a tie going to the even multiple. Overflow is not modelled: every
  magnitude in this program stays far below \<open>2^1024\<close>.\<close>

text \<open>The spacing of the subnormal doubles, the smallest there is.\<close>

definition ulp_min :: real where
  "ulp_min = 1 / 2 ^ 1074"

text \<open>The spacing of the doubles around \<open>x\<close>: the smallest spacing \<open>u\<close>, doubling from
  \<open>ulp_min\<close> up to \<open>2^971\<close>, with \<open>\<bar>x\<bar> < 2^53 * u\<close>.\<close>

fun ulp_from :: "nat \<Rightarrow> real \<Rightarrow> real \<Rightarrow> real" where
  "ulp_from 0 u x = u"
| "ulp_from (Suc n) u x = (if \<bar>x\<bar> < 2 ^ 53 * u then u else ulp_from n (2 * u) x)"

definition ulp :: "real \<Rightarrow> real" where
  "ulp x = ulp_from 2045 ulp_min x"

text \<open>Rounding to the nearest integer, a tie going to the even one.\<close>

definition rne :: "real \<Rightarrow> int" where
  "rne y =
     (let f = \<lfloor>y\<rfloor>; d = y - of_int f
      in if d < 1/2 then f else if 1/2 < d then f + 1 else if even f then f else f + 1)"

text \<open>Rounding to the nearest double.\<close>

definition fl :: "real \<Rightarrow> real" where
  "fl x = of_int (rne (x / ulp x)) * ulp x"

section \<open>The simulated stream (\<open>useSimulatedAIStream\<close>)\<close>

record weighted =
  pool_key :: string
  pool_w :: real

definition weightedPool :: "weighted list" where
  "weightedPool =
     [ \<lparr> pool_key = ''FOCUSED'', pool_w = 36 \<rparr>,
       \<lparr> pool_key = ''SOCIALIZING'', pool_w = 8 \<rparr>,
       \<lparr> pool_key = ''IDLING'', pool_w = 10 \<rparr>,
       \<lparr> pool_key = ''NON_LEARNING_CONTENT'', pool_w = 10 \<rparr>,
       \<lparr> pool_key = ''AWAY_FROM_SEAT'', pool_w = 4 \<rparr>,
       \<lparr> pool_key = ''EATING'', pool_w = 4 \<rparr>,
       \<lparr> pool_key = ''RUSHING'', pool_w = 6 \<rparr>,
       \<lparr> pool_key = ''SKIPPING_RECOMMENDED_LESSON'', pool_w = 4 \<rparr>,
       \<lparr> pool_key = ''CHEATING'', pool_w = 2 \<rparr> ]"

text \<open>\<^verbatim>\<open>weightedPool.reduce((s, p) => s + p.w, 0)\<close>\<close>

definition pool_total :: "weighted list \<Rightarrow> real" where
  "pool_total pool = foldl (\<lambda>s p. fl (s + pool_w p)) 0 pool"

text \<open>\<^verbatim>\<open>weightedPool.find((p) => (r -= p.w) < 0)\<close>: the callback subtracts the weight
  from the running value \<open>r\<close> and keeps the first entry at which the result is negative;
  \<open>None\<close> is JavaScript's \<^verbatim>\<open>undefined\<close>.\<close>

fun find_weighted :: "real \<Rightarrow> weighted list \<Rightarrow> weighted option" where
  "find_weighted r [] = None"
| "find_weighted r (p # ps) =
     (let r' = fl (r - pool_w p) in if r' < 0 then Some p else find_weighted r' ps)"

text \<open>Lines 108 to 110 of \<open>pickPattern\<close>, for a pool and the value \<open>rnd\<close> of
  \<^verbatim>\<open>Math.random()\<close>. The \<^verbatim>\<open>?.key || "FOCUSED"\<close> fallback is taken when nothing was
  found and when the key found is the empty string.\<close>

definition chosenKey :: "weighted list \<Rightarrow> real \<Rightarrow> string" where
  "chosenKey pool rnd =
     (let total = pool_total pool;
          r = fl (rnd * total)
      in case find_weighted r pool of
           None \<Rightarrow> ''FOCUSED''
         | Some p \<Rightarrow> (if pool_key p = [] then ''FOCUSED'' else pool_key p))"

text \<open>Line 111:
  \<^verbatim>\<open>DEFAULT_CONFIG.patterns.find((p) => p.key === chosenKey) || DEFAULT_CONFIG.patterns[0]\<close>.\<close>

definition patternOrDefault :: "string \<Rightarrow> pattern" where
  "patternOrDefault k =
     (case find (\<lambda>p. key p = k) (patterns DEFAULT_CONFIG) of
        Some p \<Rightarrow> p
      | None \<Rightarrow> patterns DEFAULT_CONFIG ! 0)"

definition pickPattern :: "real \<Rightarrow> pattern" where
  "pickPattern rnd = patternOrDefault (chosenKey weightedPool rnd)"

record ai_state =
  pattern :: pattern
  secondsInPattern :: int
  sessionSec :: int
  wastedSec :: int

text \<open>The hook's state together with the mutable reference \<open>dwellLeftRef\<close>.\<close>

record stream =
  ai :: ai_state
  dwellLeftRef :: int

text \<open>The initial state of the hook. \<^verbatim>\<open>config.patterns[0]\<close> is \<^verbatim>\<open>undefined\<close> for a
  configuration without patterns, and the first render then fails on
  \<^verbatim>\<open>ai.pattern.waste\<close>; statements that read the initial pattern assume
  \<open>patterns cfg \<noteq> []\<close>.\<close>

definition initial_stream :: "config \<Rightarrow> stream" where
  "initial_stream cfg =
     \<lparr> ai = \<lparr> pattern = patterns cfg ! 0, secondsInPattern = 0, sessionSec = 0, wastedSec = 0 \<rparr>,
       dwellLeftRef = 0 \<rparr>"

text \<open>Lines 122 and 123: the dwell drawn for a freshly picked pattern; \<open>rnd\<close> is the
  value of \<^verbatim>\<open>Math.random()\<close>. The product and the sum are each rounded to a double.
  \<^verbatim>\<open>Math.round\<close> returns the nearest integer of its double argument exactly, halves
  going upwards, as \<^const>\<open>round\<close> does.\<close>

definition newDwell :: "pattern \<Rightarrow> real \<Rightarrow> int" where
  "newDwell p rnd =
     (let base = (if key p = ''FOCUSED'' then 6 else 10) :: real
      in max 2 (round (fl (base + fl (rnd * base)))))"

text \<open>The body of the interval callback (lines 116 to 134). \<open>rnd1\<close> and \<open>rnd2\<close> are the
  two values \<^verbatim>\<open>Math.random()\<close> yields when the tick reselects; a tick that does not
  reselect draws nothing and ignores them.\<close>

definition tick :: "real \<Rightarrow> real \<Rightarrow> stream \<Rightarrow> stream" where
  "tick rnd1 rnd2 s =
     (let prev = ai s;
          dwell0 = dwellLeftRef s;
          reselect = (dwell0 \<le> 0);
          pat = (if reselect then pickPattern rnd1 else pattern prev);
          dwell = (if reselect then newDwell pat rnd2 else dwell0);
          secs = (if reselect then 0 else secondsInPattern prev)
      in \<lparr> ai = \<lparr> pattern = pat,
                  secondsInPattern = secs + 1,
                  sessionSec = sessionSec prev + 1,
                  wastedSec = (if waste pat then wastedSec prev + 1 else wastedSec prev) \<rparr>,
           dwellLeftRef = max 0 (dwell - 1) \<rparr>)"

text \<open>A run of ticks, one pair of random draws per tick.\<close>

fun run_ticks :: "(real \<times> real) list \<Rightarrow> stream \<Rightarrow> stream" where
  "run_ticks [] s = s"
| "run_ticks ((rnd1, rnd2) # ds) s = run_ticks ds (tick rnd1 rnd2 s)"

text \<open>The exact sum of the first \<open>i\<close> weights of a pool.\<close>

definition prefix_w :: "weighted list \<Rightarrow> nat \<Rightarrow> real" where
  "prefix_w pool i = sum_list (map pool_w (take i pool))"



section \<open>Feedback (\<open>useFeedback\<close>)\<close>

text \<open>What the browser offers: whether \<^verbatim>\<open>window\<close> exists, whether an audio context
  can be made and driven (\<^verbatim>\<open>window.AudioContext || window.webkitAudioContext\<close>; an
  exception in the audio calls is caught and counts as no tone), and whether
  \<^verbatim>\<open>navigator.vibrate\<close> is a function.\<close>

record platform =
  has_window :: bool
  has_audio :: bool
  has_vibrate :: bool

text \<open>What reaches the devices: a sine tone of a frequency and a duration, or a
  vibration of a duration.\<close>

datatype action = Tone int int | Vibration int

text \<open>\<open>feedback.ping\<close>: \<^verbatim>\<open>ping.current\<close> is only set where \<^verbatim>\<open>window\<close> exists, and the
  function stored there returns at once when muted.\<close>

definition ping :: "platform \<Rightarrow> bool \<Rightarrow> int \<Rightarrow> int \<Rightarrow> action list" where
  "ping pf muted freq durMs =
     (if \<not> has_window pf then []
      else if muted then []
      else if \<not> has_audio pf then []
      else [Tone freq durMs])"

text \<open>\<open>feedback.vibrate\<close>\<close>

definition vibrate :: "platform \<Rightarrow> bool \<Rightarrow> int \<Rightarrow> action list" where
  "vibrate pf reducedMotion ms =
     (if reducedMotion then []
      else if has_vibrate pf then [Vibration ms]
      else [])"

section \<open>The overlay (\<open>WastemeterOverlay\<close>)\<close>

text \<open>The calls the escalation effect makes on the feedback object.\<close>

datatype call = Ping int int | Vibrate int

definition perform :: "platform \<Rightarrow> bool \<Rightarrow> bool \<Rightarrow> call \<Rightarrow> action list" where
  "perform pf muted reducedMotion c =
     (case c of
        Ping freq durMs \<Rightarrow> ping pf muted freq durMs
      | Vibrate ms \<Rightarrow> vibrate pf reducedMotion ms)"

text \<open>\<^verbatim>\<open>Array.prototype.indexOf\<close>: the first index of the element, or \<open>-1\<close>.\<close>

fun indexOf :: "'a list \<Rightarrow> 'a \<Rightarrow> int" where
  "indexOf [] x = - 1"
| "indexOf (y # ys) x =
     (if y = x then 0 else (let i = indexOf ys x in if i < 0 then - 1 else i + 1))"

text \<open>\<^verbatim>\<open>const order = ["mild", "warn", "high", "critical"]\<close>\<close>

definition sev_order :: "severity list" where
  "sev_order = [Mild, Warn, High, Critical]"

text \<open>The escalation effect (lines 293 to 305) for the values one render closes over:
  \<open>snoozed\<close>, \<open>running\<close>, \<open>ai.pattern.waste\<close>, \<open>sever\<close>, and the content of the
  reference \<open>lastSever\<close>. It returns the calls made and the new content of the
  reference.\<close>

definition escalation_effect ::
  "bool \<Rightarrow> bool \<Rightarrow> bool \<Rightarrow> severity \<Rightarrow> severity \<Rightarrow> call list \<times> severity" where
  "escalation_effect snoozed running isWaste sever lastSever =
     (if snoozed \<or> \<not> running then ([], lastSever)
      else
        ((if isWaste then
            (let prevIdx = indexOf sev_order lastSever;
                 idx = indexOf sev_order sever
             in if idx > prevIdx then [Ping (700 + idx * 100) 100, Vibrate (25 + idx * 10)]
                else [])
          else []),
         sever))"

text \<open>The values of one render that the escalation effect reads.\<close>

record render =
  r_snoozed :: bool
  r_running :: bool
  r_isWaste :: bool
  r_sever :: severity

text \<open>The effect runs after every render (its dependency \<open>feedback\<close> is a new object
  each time). A run over consecutive renders returns the calls of each render and the
  final content of the reference.\<close>

fun escalation_run :: "severity \<Rightarrow> render list \<Rightarrow> call list list \<times> severity" where
  "escalation_run l [] = ([], l)"
| "escalation_run l (r # rs) =
     (let e = escalation_effect (r_snoozed r) (r_running r) (r_isWaste r) (r_sever r) l;
          rest = escalation_run (snd e) rs
      in (fst e # fst rest, snd rest))"

text \<open>\<^verbatim>\<open>const lastSever = useRef(sever)\<close>: the reference starts as the severity of the
  first render.\<close>

fun escalation_mount :: "render list \<Rightarrow> call list list \<times> severity" where
  "escalation_mount [] = ([], Ok)"
| "escalation_mount (r # rs) = escalation_run (r_sever r) (r # rs)"

text \<open>The number of renders at which feedback was emitted.\<close>

definition emitted :: "call list list \<Rightarrow> nat" where
  "emitted css = length (filter (\<lambda>cs. cs \<noteq> []) css)"

text \<open>A render of a waste pattern at a severity, neither snoozed nor paused.\<close>

definition waste_render :: "severity \<Rightarrow> render" where
  "waste_render sv = \<lparr> r_snoozed = False, r_running = True, r_isWaste = True, r_sever = sv \<rparr>"

text \<open>The rank of a severity on the escalation ladder as the specification words it:
  mild 0, warn 1, high 2, critical 3, and ok below mild.\<close>

fun ladder_rank :: "severity \<Rightarrow> int" where
  "ladder_rank Ok = - 1"
| "ladder_rank Mild = 0"
| "ladder_rank Warn = 1"
| "ladder_rank High = 2"
| "ladder_rank Critical = 3"

subsection \<open>The session log\<close>

record logentry =
  entry_t :: string
  entry_pattern :: string
  entry_secs :: int
  entry_wasted :: bool
  entry_totalWaste :: int

text \<open>The entry built in the log effect; \<open>time\<close> is the value of
  \<^verbatim>\<open>new Date().toLocaleTimeString()\<close>.\<close>

definition mk_entry :: "string \<Rightarrow> ai_state \<Rightarrow> logentry" where
  "mk_entry time a =
     \<lparr> entry_t = time,
       entry_pattern = key (pattern a),
       entry_secs = secondsInPattern a,
       entry_wasted = waste (pattern a),
       entry_totalWaste = wastedSec a \<rparr>"

text \<open>\<^verbatim>\<open>[entry, ...L].slice(0, 40)\<close>\<close>

definition push_log :: "logentry \<Rightarrow> logentry list \<Rightarrow> logentry list" where
  "push_log entry L = take 40 (entry # L)"

text \<open>The dependencies of the log effect:
  \<^verbatim>\<open>[ai.pattern.key, ai.secondsInPattern, ai.wastedSec]\<close>.\<close>

definition log_deps :: "ai_state \<Rightarrow> string \<times> int \<times> int" where
  "log_deps a = (key (pattern a), secondsInPattern a, wastedSec a)"

text \<open>The log effect runs after the first render (\<open>prevDeps = None\<close>) and after a render
  whose dependencies differ from those of the render before.\<close>

definition log_effect ::
  "string \<Rightarrow> (string \<times> int \<times> int) option \<Rightarrow> ai_state \<Rightarrow> logentry list \<Rightarrow> logentry list" where
  "log_effect time prevDeps a L =
     (if prevDeps = Some (log_deps a) then L else push_log (mk_entry time a) L)"

text \<open>The stream and the log over a session: the mount, then ticks, each with its two
  random draws and the time string of its render.\<close>

definition session_mount :: "config \<Rightarrow> string \<Rightarrow> stream \<times> logentry list" where
  "session_mount cfg time =
     (initial_stream cfg, log_effect time None (ai (initial_stream cfg)) [])"

fun session_ticks ::
  "(real \<times> real \<times> string) list \<Rightarrow> stream \<times> logentry list \<Rightarrow> stream \<times> logentry list" where
  "session_ticks [] sl = sl"
| "session_ticks ((rnd1, rnd2, time) # ins) (s, L) =
     (let s' = tick rnd1 rnd2 s
      in session_ticks ins (s', log_effect time (Some (log_deps (ai s))) (ai s') L))"

text \<open>The entries of the samples the ticks produce, in chronological order.\<close>

fun tick_entries :: "(real \<times> real \<times> string) list \<Rightarrow> stream \<Rightarrow> logentry list" where
  "tick_entries [] s = []"
| "tick_entries ((rnd1, rnd2, time) # ins) s =
     (let s' = tick rnd1 rnd2 s in mk_entry time (ai s') # tick_entries ins s')"


subsection \<open>The component as a transition system\<close>

text \<open>The state the component keeps between renders: the stream hook's state, the
  five \<^verbatim>\<open>useState\<close> cells, the reference \<open>lastSever\<close>, and the dependencies with which
  the log effect last ran (\<open>None\<close> before the first render).\<close>

record overlay =
  strm :: stream
  dragEnabled :: bool
  snoozedUntil :: int
  muted :: bool
  running :: bool
  slog :: "logentry list"
  lastSever :: severity
  logDeps :: "(string \<times> int \<times> int) option"

definition overlay_initial :: "config \<Rightarrow> overlay" where
  "overlay_initial cfg =
     \<lparr> strm = initial_stream cfg,
       dragEnabled = True,
       snoozedUntil = 0,
       muted = False,
       running = True,
       slog = [],
       lastSever = getSeverity (secondsInPattern (ai (initial_stream cfg))) (cfg_thresholds cfg)
                     (waste (pattern (ai (initial_stream cfg)))),
       logDeps = None \<rparr>"

text \<open>What a render reads from outside the component: the platform, the
  reduced-motion preference, \<^verbatim>\<open>Date.now()\<close> and the time string of the log entry.\<close>

record world =
  w_platform :: platform
  w_reducedMotion :: bool
  w_now :: int
  w_time :: string

definition current_render :: "config \<Rightarrow> world \<Rightarrow> overlay \<Rightarrow> render" where
  "current_render cfg w ov =
     \<lparr> r_snoozed = (w_now w < snoozedUntil ov),
       r_running = running ov,
       r_isWaste = waste (pattern (ai (strm ov))),
       r_sever = getSeverity (secondsInPattern (ai (strm ov))) (cfg_thresholds cfg)
                   (waste (pattern (ai (strm ov)))) \<rparr>"

text \<open>The effects after a render: the escalation effect, whose calls go through
  \<open>useFeedback\<close>, and the log effect.\<close>

definition overlay_effects :: "config \<Rightarrow> world \<Rightarrow> overlay \<Rightarrow> overlay \<times> action list" where
  "overlay_effects cfg w ov =
     (let r = current_render cfg w ov;
          e = escalation_effect (r_snoozed r) (r_running r) (r_isWaste r) (r_sever r) (lastSever ov);
          acts = concat (map (perform (w_platform w) (muted ov) (w_reducedMotion w)) (fst e));
          L = log_effect (w_time w) (logDeps ov) (ai (strm ov)) (slog ov)
      in (ov\<lparr> lastSever := snd e, slog := L, logDeps := Some (log_deps (ai (strm ov))) \<rparr>, acts))"

text \<open>Everything that changes the component's state: the interval callback and the
  four buttons (\<open>onSnooze\<close>, and the toggles of \<open>muted\<close>, \<open>dragEnabled\<close> and \<open>running\<close>).\<close>

datatype event = Tick real real | Snooze int | ToggleMute | ToggleDrag | ToggleRunning

definition overlay_dispatch :: "world \<Rightarrow> event \<Rightarrow> overlay \<Rightarrow> overlay" where
  "overlay_dispatch w ev ov =
     (case ev of
        Tick rnd1 rnd2 \<Rightarrow> ov\<lparr> strm := tick rnd1 rnd2 (strm ov) \<rparr>
      | Snooze mins \<Rightarrow> ov\<lparr> snoozedUntil := w_now w + mins * 60 * 1000 \<rparr>
      | ToggleMute \<Rightarrow> ov\<lparr> muted := \<not> muted ov \<rparr>
      | ToggleDrag \<Rightarrow> ov\<lparr> dragEnabled := \<not> dragEnabled ov \<rparr>
      | ToggleRunning \<Rightarrow> ov\<lparr> running := \<not> running ov \<rparr>)"

definition overlay_step :: "config \<Rightarrow> world \<Rightarrow> event \<Rightarrow> overlay \<Rightarrow> overlay \<times> action list" where
  "overlay_step cfg w ev ov = overlay_effects cfg w (overlay_dispatch w ev ov)"

definition overlay_mount :: "config \<Rightarrow> world \<Rightarrow> overlay \<times> action list" where
  "overlay_mount cfg w = overlay_effects cfg w (overlay_initial cfg)"


text \<open>What the ticks rely on between them: the seconds in pattern are not negative,
  are 0 only while no dwell is left, and are 1 only while some dwell is left.\<close>

definition stream_inv :: "stream \<Rightarrow> bool" where
  "stream_inv s =
     (0 \<le> secondsInPattern (ai s) \<and>
      (secondsInPattern (ai s) = 0 \<longrightarrow> dwellLeftRef s \<le> 0) \<and>
      (secondsInPattern (ai s) = 1 \<longrightarrow> 1 \<le> dwellLeftRef s))"

section \<open>Properties of the severity classifier\<close>

text \<open>
  Claim C2. For every seconds-in-pattern value and every thresholds record, the
  classifier returns \<open>Ok\<close> for a pattern that is not a waste pattern; for a waste pattern
  it returns \<open>Critical\<close> from the critical threshold on, else \<open>High\<close> from the high
  threshold on, else \<open>Warn\<close> from the warn threshold on, else \<open>Mild\<close>, and never \<open>Ok\<close>.
  With the default thresholds 10, 25, 45 the values at 0, 10, 25 and 45 seconds are
  mild, warn, high and critical.
\<close>

theorem getSeverity_classifies:
  "(\<not> isWaste \<longrightarrow> getSeverity s ths isWaste = Ok) \<and>
   (isWaste \<longrightarrow>
      getSeverity s ths isWaste \<noteq> Ok \<and>
      (s \<ge> critical ths \<longrightarrow> getSeverity s ths isWaste = Critical) \<and>
      (s < critical ths \<and> s \<ge> high ths \<longrightarrow> getSeverity s ths isWaste = High) \<and>
      (s < critical ths \<and> s < high ths \<and> s \<ge> warn ths \<longrightarrow> getSeverity s ths isWaste = Warn) \<and>
      (s < critical ths \<and> s < high ths \<and> s < warn ths \<longrightarrow> getSeverity s ths isWaste = Mild)) \<and>
   getSeverity 0 (cfg_thresholds DEFAULT_CONFIG) True = Mild \<and>
   getSeverity 10 (cfg_thresholds DEFAULT_CONFIG) True = Warn \<and>
   getSeverity 25 (cfg_thresholds DEFAULT_CONFIG) True = High \<and>
   getSeverity 45 (cfg_thresholds DEFAULT_CONFIG) True = Critical"
  by (simp add: getSeverity_def DEFAULT_CONFIG_def)

theorem getSeverity_classifies_witness:
  "getSeverity 30 \<lparr> warn = 10, high = 25, critical = 45 \<rparr> False = Ok \<and>
   getSeverity 50 \<lparr> warn = 10, high = 25, critical = 45 \<rparr> True = Critical \<and>
   getSeverity 30 \<lparr> warn = 10, high = 25, critical = 45 \<rparr> True = High \<and>
   getSeverity 12 \<lparr> warn = 10, high = 25, critical = 45 \<rparr> True = Warn \<and>
   getSeverity 5 \<lparr> warn = 10, high = 25, critical = 45 \<rparr> True = Mild \<and>
   getSeverity 30 \<lparr> warn = 10, high = 25, critical = 45 \<rparr> True \<noteq> Ok"
  using getSeverity_classifies [of False 30 "\<lparr> warn = 10, high = 25, critical = 45 \<rparr>"]
    getSeverity_classifies [of True 50 "\<lparr> warn = 10, high = 25, critical = 45 \<rparr>"]
    getSeverity_classifies [of True 30 "\<lparr> warn = 10, high = 25, critical = 45 \<rparr>"]
    getSeverity_classifies [of True 12 "\<lparr> warn = 10, high = 25, critical = 45 \<rparr>"]
    getSeverity_classifies [of True 5 "\<lparr> warn = 10, high = 25, critical = 45 \<rparr>"]
  by simp

section \<open>Properties of double arithmetic\<close>

lemma ulp_min_pos: "0 < ulp_min"
  unfolding ulp_min_def by (rule divide_pos_pos) (rule zero_less_one, rule zero_less_power, simp)

lemma ulp_min_pow: "j \<le> 1074 \<Longrightarrow> ulp_min * 2 ^ (1074 - j) = 1 / 2 ^ j"
proof -
  assume "j \<le> 1074"
  then have a: "(2::real) ^ 1074 = 2 ^ (1074 - j) * 2 ^ j"
    by (simp only: power_add [symmetric] le_add_diff_inverse2)
  have nz: "(2::real) ^ (1074 - j) \<noteq> 0"
    by (rule power_not_zero) simp
  have "ulp_min * 2 ^ (1074 - j) = 2 ^ (1074 - j) / 2 ^ 1074"
    unfolding ulp_min_def by (simp only: times_divide_eq_left mult_1)
  also have "\<dots> = 2 ^ (1074 - j) / (2 ^ (1074 - j) * 2 ^ j)"
    by (simp only: a [symmetric])
  also have "\<dots> = 1 / 2 ^ j"
    using nz by (rule nonzero_divide_mult_cancel_left)
  finally show ?thesis .
qed

lemma ulp_from_spec:
  "\<exists>k\<le>n. ulp_from n u x = u * 2 ^ k \<and>
          (k < n \<longrightarrow> \<bar>x\<bar> < 2 ^ 53 * (u * 2 ^ k)) \<and>
          (0 < k \<longrightarrow> 2 ^ 52 * (u * 2 ^ k) \<le> \<bar>x\<bar>)"
proof (induction n arbitrary: u)
  case 0
  then show ?case by simp
next
  case (Suc n)
  show ?case
  proof (cases "\<bar>x\<bar> < 2 ^ 53 * u")
    case True
    then show ?thesis by (intro exI [of _ 0]) simp
  next
    case False
    from Suc [of "2 * u"] obtain k where k: "k \<le> n" "ulp_from n (2 * u) x = 2 * u * 2 ^ k"
      "k < n \<longrightarrow> \<bar>x\<bar> < 2 ^ 53 * (2 * u * 2 ^ k)"
      "0 < k \<longrightarrow> 2 ^ 52 * (2 * u * 2 ^ k) \<le> \<bar>x\<bar>" by blast
    have lo: "2 ^ 52 * (u * 2 ^ Suc k) \<le> \<bar>x\<bar>"
    proof (cases "0 < k")
      case True
      with k(4) show ?thesis by (simp add: mult_ac)
    next
      case False
      with \<open>\<not> \<bar>x\<bar> < 2 ^ 53 * u\<close> show ?thesis by simp
    qed
    show ?thesis
      using False k lo by (intro exI [of _ "Suc k"]) (simp add: mult_ac)
  qed
qed

lemma ulp_cases:
  obtains k where "k \<le> 2045" and "ulp x = ulp_min * 2 ^ k"
    and "k < 2045 \<longrightarrow> \<bar>x\<bar> < 2 ^ 53 * ulp x"
    and "0 < k \<longrightarrow> 2 ^ 52 * ulp x \<le> \<bar>x\<bar>"
proof -
  have "\<exists>k\<le>2045. ulp x = ulp_min * 2 ^ k \<and>
          (k < 2045 \<longrightarrow> \<bar>x\<bar> < 2 ^ 53 * (ulp_min * 2 ^ k)) \<and>
          (0 < k \<longrightarrow> 2 ^ 52 * (ulp_min * 2 ^ k) \<le> \<bar>x\<bar>)"
    unfolding ulp_def by (rule ulp_from_spec)
  then obtain k where k: "k \<le> 2045" "ulp x = ulp_min * 2 ^ k"
    "k < 2045 \<longrightarrow> \<bar>x\<bar> < 2 ^ 53 * (ulp_min * 2 ^ k)"
    "0 < k \<longrightarrow> 2 ^ 52 * (ulp_min * 2 ^ k) \<le> \<bar>x\<bar>"
    by (elim exE conjE)
  show ?thesis
  proof (rule that [of k])
    show "k \<le> 2045" by (rule k(1))
    show "ulp x = ulp_min * 2 ^ k" by (rule k(2))
    show "k < 2045 \<longrightarrow> \<bar>x\<bar> < 2 ^ 53 * ulp x" using k(3) unfolding k(2) .
    show "0 < k \<longrightarrow> 2 ^ 52 * ulp x \<le> \<bar>x\<bar>" using k(4) unfolding k(2) .
  qed
qed


lemma ulp_from_minus: "ulp_from n u (- x) = ulp_from n u x"
  by (induction n arbitrary: u) simp_all

lemma ulp_minus: "ulp (- x) = ulp x"
  by (simp add: ulp_def ulp_from_minus)

lemma pow2_less_imp: "(2::real) ^ a < 2 * 2 ^ b \<Longrightarrow> a \<le> b"
proof -
  assume "(2::real) ^ a < 2 * 2 ^ b"
  then have "(2::real) ^ a < 2 ^ Suc b" by simp
  then have "a < Suc b" by (rule power_less_imp_less_exp [rotated]) simp
  then show ?thesis by simp
qed

lemma grid_compare:
  assumes "2 ^ 52 * (ulp_min * 2 ^ a) \<le> y" and "y < 2 ^ 53 * (ulp_min * 2 ^ b)"
  shows "a \<le> b"
proof -
  from assms have "2 ^ 52 * (ulp_min * 2 ^ a) < 2 ^ 53 * (ulp_min * 2 ^ b)" by simp
  then have "ulp_min * 2 ^ a < ulp_min * (2 * 2 ^ b)" by simp
  then have "(2::real) ^ a < 2 * 2 ^ b"
    using ulp_min_pos by (simp only: mult_less_cancel_left_pos)
  then show ?thesis by (rule pow2_less_imp)
qed

lemma ulp_unique:
  assumes "k \<le> 2045"
    and "\<bar>x\<bar> < 2 ^ 53 * (ulp_min * 2 ^ k)"
    and "k = 0 \<or> 2 ^ 52 * (ulp_min * 2 ^ k) \<le> \<bar>x\<bar>"
  shows "ulp x = ulp_min * 2 ^ k"
proof (rule ulp_cases [of x])
  fix k' assume k': "k' \<le> 2045" "ulp x = ulp_min * 2 ^ k'"
    "k' < 2045 \<longrightarrow> \<bar>x\<bar> < 2 ^ 53 * ulp x" "0 < k' \<longrightarrow> 2 ^ 52 * ulp x \<le> \<bar>x\<bar>"
  have "k' \<le> k"
  proof (cases "0 < k'")
    case True
    with k'(2,4) have "2 ^ 52 * (ulp_min * 2 ^ k') \<le> \<bar>x\<bar>" by simp
    from grid_compare [OF this assms(2)] show ?thesis .
  next
    case False
    then show ?thesis by simp
  qed
  moreover have "k \<le> k'"
  proof (cases "0 < k")
    case True
    show ?thesis
    proof (rule ccontr)
      assume n: "\<not> k \<le> k'"
      then have "k' < 2045" using assms(1) by simp
      with k'(2,3) have "\<bar>x\<bar> < 2 ^ 53 * (ulp_min * 2 ^ k')" by simp
      moreover from True assms(3) have "2 ^ 52 * (ulp_min * 2 ^ k) \<le> \<bar>x\<bar>" by simp
      ultimately have "k \<le> k'" by (rule grid_compare [rotated])
      with n show False by simp
    qed
  next
    case False
    then show ?thesis by simp
  qed
  ultimately show ?thesis using k'(2) by simp
qed

text \<open>The doubles of magnitude in \<open>[2^52 / 2^j, 2^53 / 2^j)\<close> have spacing \<open>1 / 2^j\<close>.\<close>

lemma ulp_at:
  assumes "j \<le> 1074"
    and "\<bar>x\<bar> < 2 ^ 53 / 2 ^ j"
    and "j = 1074 \<or> 2 ^ 52 / 2 ^ j \<le> \<bar>x\<bar>"
  shows "ulp x = 1 / 2 ^ j"
proof -
  have u: "ulp_min * 2 ^ (1074 - j) = 1 / 2 ^ j" using assms(1) by (rule ulp_min_pow)
  have "ulp x = ulp_min * 2 ^ (1074 - j)"
  proof (rule ulp_unique)
    show "1074 - j \<le> 2045" by simp
    show "\<bar>x\<bar> < 2 ^ 53 * (ulp_min * 2 ^ (1074 - j))" using assms(2) unfolding u by simp
    show "1074 - j = 0 \<or> 2 ^ 52 * (ulp_min * 2 ^ (1074 - j)) \<le> \<bar>x\<bar>"
      using assms(1,3) unfolding u by auto
  qed
  then show ?thesis unfolding u .
qed

lemma fl_at:
  assumes "j \<le> 1074"
    and "\<bar>x\<bar> < 2 ^ 53 / 2 ^ j"
    and "j = 1074 \<or> 2 ^ 52 / 2 ^ j \<le> \<bar>x\<bar>"
  shows "fl x = of_int (rne (x * 2 ^ j)) / 2 ^ j"
  unfolding fl_def ulp_at [OF assms] by simp

lemma rne_of_int: "rne (of_int n) = n"
  by (simp add: rne_def)



lemma rne_minus: "rne (- x) = - rne x"
proof (cases "x = of_int \<lfloor>x\<rfloor>")
  case True
  then obtain n where "x = of_int n" ..
  then have "rne (- x) = rne (of_int (- n))" "rne x = rne (of_int n)" by simp_all
  then show ?thesis by (simp only: rne_of_int)
next
  case False
  then have c: "\<lceil>x\<rceil> = \<lfloor>x\<rfloor> + 1" by (simp add: ceiling_altdef)
  have f: "\<lfloor>- x\<rfloor> = - \<lfloor>x\<rfloor> - 1"
    using c by (simp add: ceiling_def)
  have "of_int \<lfloor>x\<rfloor> \<le> x" by (rule of_int_floor_le)
  with False have "of_int \<lfloor>x\<rfloor> < x" by (simp only: less_le not_False_eq_True simp_thms)
  then have d: "0 < x - of_int \<lfloor>x\<rfloor>" by simp
  show ?thesis
    unfolding rne_def Let_def f using d by auto
qed

lemma fl_minus: "fl (- x) = - fl x"
  by (simp add: fl_def ulp_minus rne_minus)

lemma fl_zero: "fl 0 = 0"
  by (simp add: fl_def rne_def)




lemma fl_rep:
  assumes "k \<le> 2045" and "x = of_int m * (ulp_min * 2 ^ k)" and "\<bar>m\<bar> < 2 ^ 53"
  shows "fl x = x"
proof (rule ulp_cases [of x])
  fix k' assume k': "k' \<le> 2045" "ulp x = ulp_min * 2 ^ k'"
    "k' < 2045 \<longrightarrow> \<bar>x\<bar> < 2 ^ 53 * ulp x" "0 < k' \<longrightarrow> 2 ^ 52 * ulp x \<le> \<bar>x\<bar>"
  have v: "0 < ulp_min * 2 ^ k" using ulp_min_pos by simp
  have "\<bar>of_int m :: real\<bar> < 2 ^ 53"
    using assms(3) by (metis of_int_abs of_int_less_iff of_int_numeral of_int_power)
  then have "\<bar>of_int m :: real\<bar> * (ulp_min * 2 ^ k) < 2 ^ 53 * (ulp_min * 2 ^ k)"
    using v by (rule mult_strict_right_mono)
  moreover have "\<bar>x\<bar> = \<bar>of_int m :: real\<bar> * (ulp_min * 2 ^ k)"
  proof -
    have "\<bar>x\<bar> = \<bar>of_int m :: real\<bar> * \<bar>ulp_min * 2 ^ k\<bar>"
      unfolding assms(2) by (rule abs_mult)
    also have "\<bar>ulp_min * 2 ^ k\<bar> = ulp_min * 2 ^ k" using v by (rule abs_of_pos)
    finally show ?thesis .
  qed
  ultimately have xb: "\<bar>x\<bar> < 2 ^ 53 * (ulp_min * 2 ^ k)" by (simp only:)
  have le: "k' \<le> k"
  proof (cases "0 < k'")
    case True
    with k'(2,4) have "2 ^ 52 * (ulp_min * 2 ^ k') \<le> \<bar>x\<bar>" by simp
    from grid_compare [OF this xb] show ?thesis .
  next
    case False
    then show ?thesis by simp
  qed
  then have p: "(2::real) ^ k = 2 ^ (k - k') * 2 ^ k'"
    by (simp only: power_add [symmetric] le_add_diff_inverse2)
  have "of_int m * (ulp_min * (2 ^ (k - k') * 2 ^ k')) / (ulp_min * 2 ^ k') =
        (of_int (m * 2 ^ (k - k')) :: real)"
    using ulp_min_pos by simp
  then have "x / (ulp_min * 2 ^ k') = of_int (m * 2 ^ (k - k'))"
    by (simp only: assms(2) p)
  then have "x / ulp x = of_int (m * 2 ^ (k - k'))"
    by (simp only: k'(2))
  then have "rne (x / ulp x) = m * 2 ^ (k - k')" by (simp only: rne_of_int)
  then have "fl x = of_int (m * 2 ^ (k - k')) * ulp x"
    by (simp only: fl_def)
  also have "\<dots> = of_int (m * 2 ^ (k - k')) * (ulp_min * 2 ^ k')"
    by (simp only: k'(2))
  also have "\<dots> = of_int m * (ulp_min * (2 ^ (k - k') * 2 ^ k'))" by simp
  also have "\<dots> = x" by (simp only: assms(2) p)
  finally show ?thesis .
qed

lemma ulp_min_top: "ulp_min * 2 ^ 1074 = 1"
proof -
  have nz: "(2::real) ^ 1074 \<noteq> 0" by (rule power_not_zero) simp
  show ?thesis
    unfolding ulp_min_def by (simp only: times_divide_eq_left mult_1 divide_self [OF nz])
qed

lemma fl_int:
  assumes "\<bar>n\<bar> < 2 ^ 53"
  shows "fl (of_int n) = of_int n"
proof (rule fl_rep [of 1074 _ n])
  show "(1074::nat) \<le> 2045" by simp
  show "of_int n = of_int n * (ulp_min * 2 ^ 1074)" by (simp only: ulp_min_top mult_1_right)
  show "\<bar>n\<bar> < 2 ^ 53" by (rule assms)
qed

lemma fl_Ints: "x \<in> \<int> \<Longrightarrow> \<bar>x\<bar> < 2 ^ 53 \<Longrightarrow> fl x = x"
proof -
  assume "x \<in> \<int>" and b: "\<bar>x\<bar> < 2 ^ 53"
  then obtain n where n: "x = of_int n" by (auto elim: Ints_cases)
  with b have "\<bar>n\<bar> < 2 ^ 53"
    by (metis of_int_abs of_int_less_iff of_int_numeral of_int_power)
  then show ?thesis unfolding n by (rule fl_int)
qed










section \<open>Properties of weighted selection\<close>

lemma fl_numeral: "(numeral w :: real) < 2 ^ 53 \<Longrightarrow> fl (numeral w) = numeral w"
  by (rule fl_Ints) simp_all

lemma fl_neg_numeral: "(numeral w :: real) < 2 ^ 53 \<Longrightarrow> fl (- numeral w) = - numeral w"
  by (simp add: fl_minus fl_numeral)

lemma fl_one: "fl 1 = 1"
  by (rule fl_Ints) simp_all

lemma sum_list_pool_nonneg:
  "\<forall>p\<in>set pool. 0 < pool_w p \<Longrightarrow> 0 \<le> sum_list (map pool_w pool)"
  by (induction pool) (simp_all add: add_nonneg_nonneg less_imp_le)

lemma foldl_fl_exact:
  assumes "\<forall>p\<in>set pool. pool_w p \<in> \<int> \<and> 0 < pool_w p"
    and "a \<in> \<int>" and "0 \<le> a" and "a + sum_list (map pool_w pool) < 2 ^ 53"
  shows "foldl (\<lambda>s p. fl (s + pool_w p)) a pool = a + sum_list (map pool_w pool)"
  using assms
proof (induction pool arbitrary: a)
  case Nil
  then show ?case by simp
next
  case (Cons p ps)
  have w: "pool_w p \<in> \<int>" "0 < pool_w p"
    and rest: "\<forall>p\<in>set ps. pool_w p \<in> \<int> \<and> 0 < pool_w p"
    using Cons.prems(1) by simp_all
  have "\<forall>p\<in>set ps. 0 < pool_w p" using rest by simp
  then have nn: "0 \<le> sum_list (map pool_w ps)" by (rule sum_list_pool_nonneg)
  have i: "a + pool_w p \<in> \<int>" using Cons.prems(2) w(1) by (rule Ints_add)
  have p0: "0 \<le> a + pool_w p" using Cons.prems(3) w(2) by simp
  have b: "a + pool_w p + sum_list (map pool_w ps) < 2 ^ 53"
    using Cons.prems(4) by (simp add: add.assoc)
  then have "\<bar>a + pool_w p\<bar> < 2 ^ 53" using nn p0 by simp
  with i have e: "fl (a + pool_w p) = a + pool_w p" by (rule fl_Ints)
  have "foldl (\<lambda>s p. fl (s + pool_w p)) (a + pool_w p) ps =
          a + pool_w p + sum_list (map pool_w ps)"
    using rest i p0 b by (rule Cons.IH)
  then show ?case by (simp add: e add.assoc)
qed

lemma pool_total_exact:
  assumes "\<forall>p\<in>set pool. pool_w p \<in> \<int> \<and> 0 < pool_w p"
    and "sum_list (map pool_w pool) < 2 ^ 53"
  shows "pool_total pool = sum_list (map pool_w pool)"
  unfolding pool_total_def using foldl_fl_exact [OF assms(1), of 0] assms(2) by simp




lemma prefix_w_all: "prefix_w pool (length pool) = sum_list (map pool_w pool)"
  by (simp add: prefix_w_def)

lemma weightedPool_integer: "\<forall>p\<in>set weightedPool. pool_w p \<in> \<int> \<and> 0 < pool_w p"
  by (simp add: weightedPool_def)

lemma weightedPool_sum: "sum_list (map pool_w weightedPool) = 84"
  by (simp add: weightedPool_def)

lemma weightedPool_total: "pool_total weightedPool = 84"
  using pool_total_exact [OF weightedPool_integer] by (simp add: weightedPool_sum)


text \<open>The product of the draw and the total is rounded: at this draw the exact
  product is \<open>64 - 2^-48\<close>, the double product is 64, and the entry selected is the one
  whose interval starts at 64.\<close>
lemma product_rounds_up_to_64: "fl (3431314001806092 / 2 ^ 52 * 84) = 64"
  by (subst fl_at [of 47]) (simp_all add: rne_def)

lemma chosenKey_rounded_product:
  "chosenKey weightedPool (3431314001806092 / 2 ^ 52) = ''AWAY_FROM_SEAT''"
  unfolding chosenKey_def weightedPool_total Let_def product_rounds_up_to_64
  by (simp add: weightedPool_def fl_numeral fl_neg_numeral fl_zero)












section \<open>Properties of the catalog lookup\<close>

lemma catalog_nonempty: "patterns DEFAULT_CONFIG \<noteq> []"
  by (simp add: DEFAULT_CONFIG_def)

lemma catalog_first:
  "patterns DEFAULT_CONFIG ! 0 = \<lparr> key = ''FOCUSED'', label = ''Focused'', waste = False \<rparr>"
  by (simp add: DEFAULT_CONFIG_def)

lemma patternOrDefault_in_catalog: "patternOrDefault k \<in> set (patterns DEFAULT_CONFIG)"
proof (cases "find (\<lambda>p. key p = k) (patterns DEFAULT_CONFIG)")
  case None
  then have "patternOrDefault k = patterns DEFAULT_CONFIG ! 0"
    by (simp add: patternOrDefault_def)
  moreover have "patterns DEFAULT_CONFIG ! 0 \<in> set (patterns DEFAULT_CONFIG)"
    using catalog_nonempty by (intro nth_mem) simp
  ultimately show ?thesis by simp
next
  case (Some p)
  then have "p \<in> set (patterns DEFAULT_CONFIG)"
    by (auto simp: find_Some_iff)
  with Some show ?thesis by (simp add: patternOrDefault_def)
qed

lemma patternOrDefault_miss:
  "k \<notin> key ` set (patterns DEFAULT_CONFIG) \<Longrightarrow> patternOrDefault k = patterns DEFAULT_CONFIG ! 0"
proof -
  assume "k \<notin> key ` set (patterns DEFAULT_CONFIG)"
  then have "find (\<lambda>p. key p = k) (patterns DEFAULT_CONFIG) = None"
    by (auto simp: find_None_iff)
  then show ?thesis by (simp add: patternOrDefault_def)
qed

lemma patternOrDefault_hit:
  "k \<in> key ` set (patterns DEFAULT_CONFIG) \<Longrightarrow> key (patternOrDefault k) = k"
proof -
  assume "k \<in> key ` set (patterns DEFAULT_CONFIG)"
  then have "find (\<lambda>p. key p = k) (patterns DEFAULT_CONFIG) \<noteq> None"
    by (auto simp: find_None_iff)
  then obtain p where p: "find (\<lambda>p. key p = k) (patterns DEFAULT_CONFIG) = Some p"
    by blast
  then have "key p = k" by (auto simp: find_Some_iff)
  with p show ?thesis by (simp add: patternOrDefault_def)
qed

lemma pickPattern_in_catalog: "pickPattern rnd \<in> set (patterns DEFAULT_CONFIG)"
  by (simp add: pickPattern_def patternOrDefault_in_catalog)

text \<open>
  Claim C8. A key that is not in the pattern catalog is recovered inside the selection:
  the lookup yields the first catalog entry, the focused pattern. For every key the
  lookup returns an entry of the catalog, a key of the catalog returns an entry with
  that key, \<open>pickPattern\<close> returns an entry of the catalog for every random draw, and a
  tick always produces a state whose pattern is either the previous one or an entry of
  the catalog: no lookup failure leaves the selection.
\<close>

theorem catalog_miss_falls_back:
  "(k \<notin> key ` set (patterns DEFAULT_CONFIG) \<longrightarrow>
      patternOrDefault k = patterns DEFAULT_CONFIG ! 0 \<and>
      patternOrDefault k = \<lparr> key = ''FOCUSED'', label = ''Focused'', waste = False \<rparr>) \<and>
   (k \<in> key ` set (patterns DEFAULT_CONFIG) \<longrightarrow> key (patternOrDefault k) = k) \<and>
   patternOrDefault k \<in> set (patterns DEFAULT_CONFIG) \<and>
   pickPattern rnd \<in> set (patterns DEFAULT_CONFIG) \<and>
   (pattern (ai (tick rnd1 rnd2 s)) = pattern (ai s) \<or>
    pattern (ai (tick rnd1 rnd2 s)) \<in> set (patterns DEFAULT_CONFIG))"
proof -
  have "pattern (ai (tick rnd1 rnd2 s)) = pattern (ai s) \<or>
        pattern (ai (tick rnd1 rnd2 s)) \<in> set (patterns DEFAULT_CONFIG)"
    by (simp add: tick_def Let_def pickPattern_in_catalog)
  then show ?thesis
    using patternOrDefault_miss [of k] patternOrDefault_hit [of k]
      patternOrDefault_in_catalog [of k] pickPattern_in_catalog [of rnd] catalog_first
    by simp
qed

theorem catalog_miss_falls_back_witness:
  "''NAPPING'' \<notin> key ` set (patterns DEFAULT_CONFIG) \<and>
   patternOrDefault ''NAPPING'' = \<lparr> key = ''FOCUSED'', label = ''Focused'', waste = False \<rparr> \<and>
   ''EATING'' \<in> key ` set (patterns DEFAULT_CONFIG) \<and>
   key (patternOrDefault ''EATING'') = ''EATING''"
proof -
  have h1: "''NAPPING'' \<notin> key ` set (patterns DEFAULT_CONFIG)"
    by (simp add: DEFAULT_CONFIG_def)
  have h2: "''EATING'' \<in> key ` set (patterns DEFAULT_CONFIG)"
    by (simp add: DEFAULT_CONFIG_def)
  show ?thesis
    using h1 h2 catalog_miss_falls_back [of "''NAPPING''" 0 0 0 "initial_stream DEFAULT_CONFIG"]
      catalog_miss_falls_back [of "''EATING''" 0 0 0 "initial_stream DEFAULT_CONFIG"]
    by blast
qed


section \<open>Properties of the tick\<close>

lemma tick_sessionSec: "sessionSec (ai (tick rnd1 rnd2 s)) = sessionSec (ai s) + 1"
  by (simp add: tick_def Let_def)

lemma tick_wastedSec:
  "wastedSec (ai (tick rnd1 rnd2 s)) =
     wastedSec (ai s) + (if waste (pattern (ai (tick rnd1 rnd2 s))) then 1 else 0)"
  by (simp add: tick_def Let_def)

lemma run_ticks_append: "run_ticks (ds @ ds') s = run_ticks ds' (run_ticks ds s)"
  by (induction ds s rule: run_ticks.induct) simp_all

lemma run_ticks_sessionSec:
  "sessionSec (ai (run_ticks ds s)) = sessionSec (ai s) + int (length ds)"
  by (induction ds s rule: run_ticks.induct) (simp_all add: tick_sessionSec)

lemma run_ticks_wastedSec_lower: "wastedSec (ai s) \<le> wastedSec (ai (run_ticks ds s))"
proof (induction ds s rule: run_ticks.induct)
  case (1 s)
  then show ?case by simp
next
  case (2 rnd1 rnd2 ds s)
  have "wastedSec (ai s) \<le> wastedSec (ai (tick rnd1 rnd2 s))"
    by (simp add: tick_wastedSec)
  with 2 show ?case by simp
qed

lemma run_ticks_wastedSec_upper:
  "wastedSec (ai (run_ticks ds s)) \<le> wastedSec (ai s) + int (length ds)"
proof (induction ds s rule: run_ticks.induct)
  case (1 s)
  then show ?case by simp
next
  case (2 rnd1 rnd2 ds s)
  have "wastedSec (ai (tick rnd1 rnd2 s)) \<le> wastedSec (ai s) + 1"
    by (simp add: tick_wastedSec)
  with 2 show ?case by simp
qed

lemma initial_stream_counters:
  "sessionSec (ai (initial_stream cfg)) = 0" "wastedSec (ai (initial_stream cfg)) = 0"
  by (simp_all add: initial_stream_def)

text \<open>
  Claim C4. Every tick adds exactly 1 to \<open>sessionSec\<close>, and adds exactly 1 to
  \<open>wastedSec\<close> when the pattern current in that tick is a waste pattern and nothing
  otherwise. Starting from the initial state, after any sequence of ticks with any
  random draws, \<open>sessionSec\<close> is the number of ticks, \<open>0 \<le> wastedSec \<le> sessionSec\<close>,
  and both counters never decrease as further ticks follow.
\<close>

theorem accumulator_counts:
  "sessionSec (ai (tick rnd1 rnd2 s)) = sessionSec (ai s) + 1 \<and>
   wastedSec (ai (tick rnd1 rnd2 s)) =
     wastedSec (ai s) + (if waste (pattern (ai (tick rnd1 rnd2 s))) then 1 else 0) \<and>
   sessionSec (ai (run_ticks ds (initial_stream cfg))) = int (length ds) \<and>
   0 \<le> wastedSec (ai (run_ticks ds (initial_stream cfg))) \<and>
   wastedSec (ai (run_ticks ds (initial_stream cfg))) \<le>
     sessionSec (ai (run_ticks ds (initial_stream cfg))) \<and>
   sessionSec (ai (run_ticks ds (initial_stream cfg))) \<le>
     sessionSec (ai (run_ticks (ds @ ds') (initial_stream cfg))) \<and>
   wastedSec (ai (run_ticks ds (initial_stream cfg))) \<le>
     wastedSec (ai (run_ticks (ds @ ds') (initial_stream cfg)))"
proof -
  let ?s0 = "initial_stream cfg"
  have a: "sessionSec (ai (run_ticks ds ?s0)) = int (length ds)"
    by (simp add: run_ticks_sessionSec initial_stream_counters)
  have b: "0 \<le> wastedSec (ai (run_ticks ds ?s0))"
    using run_ticks_wastedSec_lower [of ?s0 ds] by (simp add: initial_stream_counters)
  have c: "wastedSec (ai (run_ticks ds ?s0)) \<le> sessionSec (ai (run_ticks ds ?s0))"
    using run_ticks_wastedSec_upper [of ds ?s0] a by (simp add: initial_stream_counters)
  have d: "sessionSec (ai (run_ticks ds ?s0)) \<le> sessionSec (ai (run_ticks (ds @ ds') ?s0))"
    by (simp add: run_ticks_sessionSec)
  have e: "wastedSec (ai (run_ticks ds ?s0)) \<le> wastedSec (ai (run_ticks (ds @ ds') ?s0))"
    using run_ticks_wastedSec_lower [of "run_ticks ds ?s0" ds'] by (simp add: run_ticks_append)
  show ?thesis
    using tick_sessionSec [of rnd1 rnd2 s] tick_wastedSec [of rnd1 rnd2 s] a b c d e
    by blast
qed

theorem accumulator_counts_witness:
  "sessionSec (ai (run_ticks [(0, 0), (1/2, 1/2)] (initial_stream DEFAULT_CONFIG))) = 2 \<and>
   0 \<le> wastedSec (ai (run_ticks [(0, 0), (1/2, 1/2)] (initial_stream DEFAULT_CONFIG))) \<and>
   wastedSec (ai (run_ticks [(0, 0), (1/2, 1/2)] (initial_stream DEFAULT_CONFIG))) \<le> 2"
  using accumulator_counts [of 0 0 "initial_stream DEFAULT_CONFIG" "[(0, 0), (1/2, 1/2)]"
      DEFAULT_CONFIG "[]"]
  by simp

lemma newDwell_at_least_2: "2 \<le> newDwell p rnd"
  by (simp add: newDwell_def Let_def)



text \<open>The sum is rounded before \<^verbatim>\<open>Math.round\<close> sees it: at this draw the exact value
  of \<open>10 + rnd * 10\<close> is \<open>11.5 - 2^-50\<close>, which would round to 11; the double sum is
  11.5 and the dwell is 12.\<close>

lemma newDwell_rounded_sum:
  "newDwell \<lparr> key = ''IDLING'', label = ''Idling'', waste = True \<rparr> (675539944105574 / 2 ^ 52) = 12"
proof -
  have k: "(if key \<lparr> key = ''IDLING'', label = ''Idling'', waste = True \<rparr> = ''FOCUSED''
            then 6 else 10 :: real) = 10" by simp
  have p1: "fl (675539944105574 / 2 ^ 52 * 10) = 6755399441055740 / 2 ^ 52"
    by (subst fl_at [of 52]) (simp_all add: rne_def)
  have p2: "fl (10 + 6755399441055740 / 2 ^ 52) = 23 / 2"
    by (subst fl_at [of 49]) (simp_all add: rne_def)
  show ?thesis
    unfolding newDwell_def Let_def k p1 p2 by (simp add: round_def)
qed

lemma tick_reselects:
  assumes "dwellLeftRef s \<le> 0"
  shows "pattern (ai (tick rnd1 rnd2 s)) = pickPattern rnd1"
    and "secondsInPattern (ai (tick rnd1 rnd2 s)) = 1"
    and "dwellLeftRef (tick rnd1 rnd2 s) = newDwell (pickPattern rnd1) rnd2 - 1"
  using assms newDwell_at_least_2 [of "pickPattern rnd1" rnd2]
  by (simp_all add: tick_def Let_def)

lemma tick_keeps:
  assumes "0 < dwellLeftRef s"
  shows "pattern (ai (tick rnd1 rnd2 s)) = pattern (ai s)"
    and "secondsInPattern (ai (tick rnd1 rnd2 s)) = secondsInPattern (ai s) + 1"
    and "dwellLeftRef (tick rnd1 rnd2 s) = dwellLeftRef s - 1"
  using assms by (simp_all add: tick_def Let_def)




section \<open>Properties of the escalation effect\<close>

lemma indexOf_sev_order: "indexOf sev_order sv = ladder_rank sv"
  by (cases sv) (simp_all add: sev_order_def)

lemma ladder_rank_Ok_least: "ladder_rank Ok \<le> ladder_rank sv"
  by (cases sv) simp_all

lemma escalation_effect_gated:
  "sn \<or> \<not> rn \<Longrightarrow> escalation_effect sn rn w sv l = ([], l)"
  by (simp add: escalation_effect_def)

lemma escalation_effect_active:
  "\<not> sn \<Longrightarrow> rn \<Longrightarrow>
   escalation_effect sn rn w sv l =
     ((if w \<and> ladder_rank l < ladder_rank sv
       then [Ping (700 + ladder_rank sv * 100) 100, Vibrate (25 + ladder_rank sv * 10)]
       else []), sv)"
  by (simp add: escalation_effect_def indexOf_sev_order Let_def)

lemma escalation_effect_fires_iff:
  assumes "\<not> sn" and "rn" and "\<not> w \<longrightarrow> sv = Ok"
  shows "(fst (escalation_effect sn rn w sv l) \<noteq> []) = (ladder_rank l < ladder_rank sv)"
proof (cases w)
  case True
  with assms show ?thesis by (simp add: escalation_effect_active)
next
  case False
  with assms have "sv = Ok" by simp
  then have "\<not> ladder_rank l < ladder_rank sv"
    using ladder_rank_Ok_least [of l] by simp
  with False assms show ?thesis by (simp add: escalation_effect_active)
qed

lemma escalation_effect_records:
  "\<not> sn \<Longrightarrow> rn \<Longrightarrow> snd (escalation_effect sn rn w sv l) = sv"
  by (simp add: escalation_effect_active)

lemma getSeverity_Ok_if_not_waste: "\<not> w \<longrightarrow> getSeverity secs ths w = Ok"
  by (simp add: getSeverity_def)

text \<open>Every render of the component satisfies what the runs below assume of a
  render: off the waste patterns the severity is ok.\<close>

lemma current_render_consistent:
  "\<not> r_isWaste (current_render cfg w ov) \<longrightarrow> r_sever (current_render cfg w ov) = Ok"
  by (simp add: current_render_def getSeverity_def)

lemma escalation_run_length: "length (fst (escalation_run l rs)) = length rs"
  by (induction rs arbitrary: l) (simp_all add: Let_def)

lemma escalation_run_append:
  "escalation_run l (rs @ rs') =
     (fst (escalation_run l rs) @ fst (escalation_run (snd (escalation_run l rs)) rs'),
      snd (escalation_run (snd (escalation_run l rs)) rs'))"
  by (induction rs arbitrary: l) (simp_all add: Let_def)

lemma escalation_run_nth:
  assumes "\<forall>r\<in>set rs. \<not> r_snoozed r \<and> r_running r \<and> (\<not> r_isWaste r \<longrightarrow> r_sever r = Ok)"
    and "i < length rs"
  shows "(fst (escalation_run l rs) ! i \<noteq> []) =
           (ladder_rank ((l # map r_sever rs) ! i) < ladder_rank (r_sever (rs ! i))) \<and>
         snd (escalation_run l (take (Suc i) rs)) = r_sever (rs ! i)"
  using assms
proof (induction rs arbitrary: l i)
  case Nil
  then show ?case by simp
next
  case (Cons r rs)
  have r: "\<not> r_snoozed r" "r_running r" "\<not> r_isWaste r \<longrightarrow> r_sever r = Ok"
    and rs: "\<forall>r\<in>set rs. \<not> r_snoozed r \<and> r_running r \<and> (\<not> r_isWaste r \<longrightarrow> r_sever r = Ok)"
    using Cons.prems(1) by simp_all
  have rec: "snd (escalation_effect (r_snoozed r) (r_running r) (r_isWaste r) (r_sever r) l) = r_sever r"
    using r by (simp add: escalation_effect_records)
  show ?case
  proof (cases i)
    case 0
    then show ?thesis
      using escalation_effect_fires_iff [OF r, of l] rec by (simp add: Let_def)
  next
    case (Suc i')
    with Cons.prems(2) have "i' < length rs" by simp
    from Cons.IH [OF rs this, of "r_sever r"] Suc rec show ?thesis
      by (simp add: Let_def)
  qed
qed

lemma escalation_run_gated:
  "\<forall>r\<in>set rs. r_snoozed r \<or> \<not> r_running r \<Longrightarrow>
   escalation_run l rs = (replicate (length rs) [], l)"
  by (induction rs arbitrary: l) (simp_all add: Let_def escalation_effect_gated)

lemma emitted_replicate_Nil: "emitted (replicate n []) = 0"
  by (simp add: emitted_def)

lemma emitted_append: "emitted (xs @ ys) = emitted xs + emitted ys"
  by (simp add: emitted_def)


lemma overlay_effects_gated:
  assumes "w_now w < snoozedUntil ov \<or> \<not> running ov"
  shows "snd (overlay_effects cfg w ov) = []"
    and "lastSever (fst (overlay_effects cfg w ov)) = lastSever ov"
  using assms
  by (simp_all add: overlay_effects_def current_render_def Let_def escalation_effect_gated)

text \<open>
  Claim C1. Over any sequence of consecutive renders that are neither snoozed nor paused
  (a render that is not of a waste pattern has severity ok), starting with any content
  \<open>l\<close> of the reference: feedback is emitted at render \<open>i\<close> exactly when the ladder rank
  of its severity is strictly greater than the rank of the severity recorded last (the
  severity of render \<open>i - 1\<close>, or \<open>l\<close> for the first), and after render \<open>i\<close> the reference
  holds the severity of render \<open>i\<close>, whether the move was upward, flat or downward. The
  rank is the index in the effect's \<open>order\<close> array, with \<open>-1\<close> for ok. The
  renders of waste patterns with severities mild, mild, warn, warn, high, mild, high,
  with the reference initialised at the first of them as \<open>useRef(sever)\<close> does, emit
  exactly 3 times.
\<close>

theorem escalation_edge_triggered:
  assumes "\<forall>r\<in>set rs. \<not> r_snoozed r \<and> r_running r \<and> (\<not> r_isWaste r \<longrightarrow> r_sever r = Ok)"
  shows "(\<forall>i<length rs.
            (fst (escalation_run l rs) ! i \<noteq> []) =
              (ladder_rank ((l # map r_sever rs) ! i) < ladder_rank (r_sever (rs ! i))) \<and>
            snd (escalation_run l (take (Suc i) rs)) = r_sever (rs ! i)) \<and>
         indexOf sev_order sv = ladder_rank sv \<and>
         emitted (fst (escalation_mount
                    (map waste_render [Mild, Mild, Warn, Warn, High, Mild, High]))) = 3"
proof -
  have "emitted (fst (escalation_mount
                    (map waste_render [Mild, Mild, Warn, Warn, High, Mild, High]))) = 3"
    by (simp add: emitted_def waste_render_def escalation_effect_def sev_order_def Let_def)
  then show ?thesis
    using escalation_run_nth [OF assms] indexOf_sev_order [of sv] by blast
qed

theorem escalation_edge_triggered_witness:
  "fst (escalation_run Mild [waste_render Mild, waste_render Warn, waste_render Mild]) ! 1 \<noteq> [] \<and>
   fst (escalation_run Mild [waste_render Mild, waste_render Warn, waste_render Mild]) ! 2 = [] \<and>
   snd (escalation_run Mild
          (take 3 [waste_render Mild, waste_render Warn, waste_render Mild])) = Mild"
proof -
  let ?rs = "[waste_render Mild, waste_render Warn, waste_render Mild]"
  have h: "\<forall>r\<in>set ?rs. \<not> r_snoozed r \<and> r_running r \<and> (\<not> r_isWaste r \<longrightarrow> r_sever r = Ok)"
    by (simp add: waste_render_def)
  have a: "1 < length ?rs" and b: "2 < length ?rs" by simp_all
  from escalation_edge_triggered [OF h, of Mild] a b
  have "(fst (escalation_run Mild ?rs) ! 1 \<noteq> []) =
          (ladder_rank ((Mild # map r_sever ?rs) ! 1) < ladder_rank (r_sever (?rs ! 1)))"
    and "(fst (escalation_run Mild ?rs) ! 2 \<noteq> []) =
          (ladder_rank ((Mild # map r_sever ?rs) ! 2) < ladder_rank (r_sever (?rs ! 2)))"
    and "snd (escalation_run Mild (take (Suc 2) ?rs)) = r_sever (?rs ! 2)"
    by blast+
  then show ?thesis
    by (simp add: waste_render_def numeral_3_eq_3)
qed

text \<open>The same seven renders after a render of severity ok (the first render under
  \<open>DEFAULT_CONFIG\<close> is of the focused pattern) also emit at the first mild.\<close>

lemma escalation_after_ok:
  "emitted (fst (escalation_run Ok
             (map waste_render [Mild, Mild, Warn, Warn, High, Mild, High]))) = 4"
  by (simp add: emitted_def waste_render_def escalation_effect_def sev_order_def Let_def)

text \<open>
  Claim C3. Over any sequence of renders each of which is snoozed or paused, whatever
  their severities, the escalation effect makes no call and leaves the recorded
  severity as it was. A following render that is neither snoozed nor paused, of a waste
  pattern whose severity ranks strictly above the severity recorded before the
  snooze, emits exactly one event; rendering it again emits nothing more. In the
  component a render is snoozed when \<open>Date.now() < snoozedUntil\<close>; such a render, and a
  render while not running, produces no feedback and keeps \<open>lastSever\<close>.
\<close>

theorem snooze_pause_gate:
  assumes "\<forall>r\<in>set rs. r_snoozed r \<or> \<not> r_running r"
  shows "escalation_run l rs = (replicate (length rs) [], l) \<and>
         (\<not> r_snoozed r \<and> r_running r \<and> r_isWaste r \<and> ladder_rank l < ladder_rank (r_sever r) \<longrightarrow>
            escalation_run l (rs @ [r]) =
              (replicate (length rs) [] @
                 [[Ping (700 + ladder_rank (r_sever r) * 100) 100,
                   Vibrate (25 + ladder_rank (r_sever r) * 10)]],
               r_sever r) \<and>
            emitted (fst (escalation_run l (rs @ [r]))) = 1 \<and>
            emitted (fst (escalation_run l (rs @ [r, r]))) = 1) \<and>
         (w_now w < snoozedUntil ov \<or> \<not> running ov \<longrightarrow>
            snd (overlay_effects cfg w ov) = [] \<and>
            lastSever (fst (overlay_effects cfg w ov)) = lastSever ov)"
proof -
  have g: "escalation_run l rs = (replicate (length rs) [], l)"
    using assms by (rule escalation_run_gated)
  have edge: "escalation_run l (rs @ [r]) =
              (replicate (length rs) [] @
                 [[Ping (700 + ladder_rank (r_sever r) * 100) 100,
                   Vibrate (25 + ladder_rank (r_sever r) * 10)]],
               r_sever r)"
    and one: "emitted (fst (escalation_run l (rs @ [r]))) = 1"
    and again: "emitted (fst (escalation_run l (rs @ [r, r]))) = 1"
    if "\<not> r_snoozed r" "r_running r" "r_isWaste r" "ladder_rank l < ladder_rank (r_sever r)"
  proof -
    show e: "escalation_run l (rs @ [r]) =
              (replicate (length rs) [] @
                 [[Ping (700 + ladder_rank (r_sever r) * 100) 100,
                   Vibrate (25 + ladder_rank (r_sever r) * 10)]],
               r_sever r)"
      using that g by (simp add: escalation_run_append escalation_effect_active Let_def)
    then show "emitted (fst (escalation_run l (rs @ [r]))) = 1"
      by (simp add: emitted_append emitted_replicate_Nil) (simp add: emitted_def)
    have "escalation_run l (rs @ [r, r]) =
            (fst (escalation_run l (rs @ [r])) @ [[]], r_sever r)"
      using that e escalation_run_append [of l "rs @ [r]" "[r]"]
      by (simp add: escalation_effect_active Let_def)
    then show "emitted (fst (escalation_run l (rs @ [r, r]))) = 1"
      using e by (simp add: emitted_append emitted_replicate_Nil) (simp add: emitted_def)
  qed
  show ?thesis
    using g edge one again overlay_effects_gated [of w ov cfg] by blast
qed

theorem snooze_pause_gate_witness:
  "escalation_run Mild
     [\<lparr> r_snoozed = True, r_running = True, r_isWaste = True, r_sever = Critical \<rparr>,
      \<lparr> r_snoozed = False, r_running = False, r_isWaste = True, r_sever = High \<rparr>] =
     ([[], []], Mild) \<and>
   emitted (fst (escalation_run Mild
     ([\<lparr> r_snoozed = True, r_running = True, r_isWaste = True, r_sever = Critical \<rparr>,
       \<lparr> r_snoozed = False, r_running = False, r_isWaste = True, r_sever = High \<rparr>] @
      [waste_render Warn]))) = 1 \<and>
   snd (overlay_effects DEFAULT_CONFIG
     \<lparr> w_platform = \<lparr> has_window = True, has_audio = True, has_vibrate = True \<rparr>,
       w_reducedMotion = False, w_now = 1000, w_time = ''12:00:01'' \<rparr>
     \<lparr> strm = \<lparr> ai = \<lparr> pattern = \<lparr> key = ''IDLING'', label = ''Idling'', waste = True \<rparr>,
                       secondsInPattern = 30, sessionSec = 40, wastedSec = 30 \<rparr>,
                dwellLeftRef = 2 \<rparr>,
       dragEnabled = True, snoozedUntil = 60000, muted = False, running = True, slog = [],
       lastSever = Mild, logDeps = None \<rparr>) = []"
proof -
  let ?rs = "[\<lparr> r_snoozed = True, r_running = True, r_isWaste = True, r_sever = Critical \<rparr>,
      \<lparr> r_snoozed = False, r_running = False, r_isWaste = True, r_sever = High \<rparr>]"
  let ?w = "\<lparr> w_platform = \<lparr> has_window = True, has_audio = True, has_vibrate = True \<rparr>,
       w_reducedMotion = False, w_now = 1000, w_time = ''12:00:01'' \<rparr>"
  let ?ov = "\<lparr> strm = \<lparr> ai = \<lparr> pattern = \<lparr> key = ''IDLING'', label = ''Idling'', waste = True \<rparr>,
                       secondsInPattern = 30, sessionSec = 40, wastedSec = 30 \<rparr>,
                dwellLeftRef = 2 \<rparr>,
       dragEnabled = True, snoozedUntil = 60000, muted = False, running = True, slog = [],
       lastSever = Mild, logDeps = None \<rparr>"
  have h: "\<forall>r\<in>set ?rs. r_snoozed r \<or> \<not> r_running r" by simp
  have e: "\<not> r_snoozed (waste_render Warn) \<and> r_running (waste_render Warn) \<and>
           r_isWaste (waste_render Warn) \<and> ladder_rank Mild < ladder_rank (r_sever (waste_render Warn))"
    by (simp add: waste_render_def)
  have g: "w_now ?w < snoozedUntil ?ov \<or> \<not> running ?ov" by simp
  from snooze_pause_gate [OF h, where l = Mild and r = "waste_render Warn" and w = ?w
      and ov = ?ov and cfg = DEFAULT_CONFIG] e g
  have "escalation_run Mild ?rs = (replicate (length ?rs) [], Mild)"
    and "emitted (fst (escalation_run Mild (?rs @ [waste_render Warn]))) = 1"
    and "snd (overlay_effects DEFAULT_CONFIG ?w ?ov) = []"
    by blast+
  then show ?thesis by (simp add: numeral_2_eq_2)
qed

section \<open>Properties of the feedback channels\<close>

lemma ping_muted: "ping pf True freq durMs = []"
  by (simp add: ping_def)

lemma perform_muted_no_tone: "Tone f d \<notin> set (perform pf True rm c)"
  by (cases c) (simp_all add: perform_def ping_def vibrate_def)

text \<open>
  Claim C10. At an escalation edge (a render neither snoozed nor paused, of a waste
  pattern, whose severity ranks above the recorded one) the effect calls
  \<open>feedback.ping\<close> and then \<open>feedback.vibrate\<close> with the duration \<open>25 + 10 * idx\<close>, where
  \<open>idx\<close> is the ladder index of the severity. While muted, \<open>ping\<close> returns without a
  tone. With reduced motion off, the vibration of that duration is passed to
  \<open>navigator.vibrate\<close> wherever the platform has it, muted or not: \<open>vibrate\<close> does not
  read the mute flag, and returns without vibrating exactly under reduced motion.
\<close>

theorem mute_keeps_haptics:
  assumes "\<not> sn" and "rn" and "isW" and "ladder_rank l < ladder_rank sv"
  shows "fst (escalation_effect sn rn isW sv l) =
           [Ping (700 + indexOf sev_order sv * 100) 100, Vibrate (25 + indexOf sev_order sv * 10)] \<and>
         indexOf sev_order sv = ladder_rank sv \<and>
         ping pf True (700 + indexOf sev_order sv * 100) 100 = [] \<and>
         (\<forall>f d. Tone f d \<notin>
            set (concat (map (perform pf True rm) (fst (escalation_effect sn rn isW sv l))))) \<and>
         concat (map (perform pf True False) (fst (escalation_effect sn rn isW sv l))) =
           (if has_vibrate pf then [Vibration (25 + 10 * ladder_rank sv)] else []) \<and>
         perform pf True rm (Vibrate ms) = perform pf False rm (Vibrate ms) \<and>
         perform pf m True (Vibrate ms) = [] \<and>
         (muted ov \<and> \<not> w_reducedMotion w \<and> \<not> w_now w < snoozedUntil ov \<and> running ov \<and>
          waste (pattern (ai (strm ov))) \<and>
          ladder_rank (lastSever ov) < ladder_rank (r_sever (current_render cfg w ov)) \<longrightarrow>
            snd (overlay_effects cfg w ov) =
              (if has_vibrate (w_platform w)
               then [Vibration (25 + 10 * ladder_rank (r_sever (current_render cfg w ov)))]
               else []))"
proof -
  have calls: "fst (escalation_effect sn rn isW sv l) =
           [Ping (700 + indexOf sev_order sv * 100) 100, Vibrate (25 + indexOf sev_order sv * 10)]"
    using assms by (simp add: escalation_effect_active indexOf_sev_order)
  have notone: "\<forall>f d. Tone f d \<notin>
            set (concat (map (perform pf True rm) (fst (escalation_effect sn rn isW sv l))))"
    using perform_muted_no_tone by simp
  have vib: "concat (map (perform pf True False) (fst (escalation_effect sn rn isW sv l))) =
           (if has_vibrate pf then [Vibration (25 + 10 * ladder_rank sv)] else [])"
    by (simp add: calls indexOf_sev_order perform_def ping_def vibrate_def)
  have indep: "perform pf True rm (Vibrate ms) = perform pf False rm (Vibrate ms)"
    and rm: "perform pf m True (Vibrate ms) = []"
    by (simp_all add: perform_def vibrate_def)
  have sys: "snd (overlay_effects cfg w ov) =
              (if has_vibrate (w_platform w)
               then [Vibration (25 + 10 * ladder_rank (r_sever (current_render cfg w ov)))]
               else [])"
    if "muted ov" "\<not> w_reducedMotion w" "\<not> w_now w < snoozedUntil ov" "running ov"
      "waste (pattern (ai (strm ov)))"
      "ladder_rank (lastSever ov) < ladder_rank (r_sever (current_render cfg w ov))"
    using that
    by (simp add: overlay_effects_def Let_def escalation_effect_active perform_def ping_def
        vibrate_def current_render_def)
  show ?thesis
    using calls indexOf_sev_order [of sv] ping_muted notone vib indep rm sys by blast
qed

theorem mute_keeps_haptics_witness:
  "fst (escalation_effect False True True Warn Mild) = [Ping 800 100, Vibrate 35] \<and>
   concat (map (perform \<lparr> has_window = True, has_audio = True, has_vibrate = True \<rparr> True False)
     (fst (escalation_effect False True True Warn Mild))) = [Vibration 35] \<and>
   concat (map (perform \<lparr> has_window = True, has_audio = True, has_vibrate = True \<rparr> False False)
     (fst (escalation_effect False True True Warn Mild))) = [Tone 800 100, Vibration 35] \<and>
   snd (overlay_effects DEFAULT_CONFIG
     \<lparr> w_platform = \<lparr> has_window = True, has_audio = True, has_vibrate = True \<rparr>,
       w_reducedMotion = False, w_now = 1000, w_time = ''12:00:01'' \<rparr>
     \<lparr> strm = \<lparr> ai = \<lparr> pattern = \<lparr> key = ''IDLING'', label = ''Idling'', waste = True \<rparr>,
                       secondsInPattern = 10, sessionSec = 40, wastedSec = 30 \<rparr>,
                dwellLeftRef = 2 \<rparr>,
       dragEnabled = True, snoozedUntil = 0, muted = True, running = True, slog = [],
       lastSever = Mild, logDeps = None \<rparr>) = [Vibration 35]"
proof -
  let ?pf = "\<lparr> has_window = True, has_audio = True, has_vibrate = True \<rparr>"
  let ?w = "\<lparr> w_platform = ?pf, w_reducedMotion = False, w_now = 1000, w_time = ''12:00:01'' \<rparr>"
  let ?ov = "\<lparr> strm = \<lparr> ai = \<lparr> pattern = \<lparr> key = ''IDLING'', label = ''Idling'', waste = True \<rparr>,
                       secondsInPattern = 10, sessionSec = 40, wastedSec = 30 \<rparr>,
                dwellLeftRef = 2 \<rparr>,
       dragEnabled = True, snoozedUntil = 0, muted = True, running = True, slog = [],
       lastSever = Mild, logDeps = None \<rparr>"
  have h: "\<not> False" "True" "ladder_rank Mild < ladder_rank Warn" by simp_all
  have sv: "r_sever (current_render DEFAULT_CONFIG ?w ?ov) = Warn"
    by (simp add: current_render_def getSeverity_def DEFAULT_CONFIG_def)
  have g: "muted ?ov \<and> \<not> w_reducedMotion ?w \<and> \<not> w_now ?w < snoozedUntil ?ov \<and> running ?ov \<and>
          waste (pattern (ai (strm ?ov))) \<and>
          ladder_rank (lastSever ?ov) < ladder_rank (r_sever (current_render DEFAULT_CONFIG ?w ?ov))"
    unfolding sv by simp
  from mute_keeps_haptics [OF h(1) h(2) h(2) h(3), where pf = ?pf and w = ?w and ov = ?ov
      and cfg = DEFAULT_CONFIG] g
  have a: "fst (escalation_effect False True True Warn Mild) =
           [Ping (700 + indexOf sev_order Warn * 100) 100, Vibrate (25 + indexOf sev_order Warn * 10)]"
    and b: "indexOf sev_order Warn = ladder_rank Warn"
    and c: "concat (map (perform ?pf True False)
              (fst (escalation_effect False True True Warn Mild))) =
           (if has_vibrate ?pf then [Vibration (25 + 10 * ladder_rank Warn)] else [])"
    and d: "snd (overlay_effects DEFAULT_CONFIG ?w ?ov) =
              (if has_vibrate (w_platform ?w)
               then [Vibration (25 + 10 * ladder_rank (r_sever (current_render DEFAULT_CONFIG ?w ?ov)))]
               else [])"
    by blast+
  from a b have a': "fst (escalation_effect False True True Warn Mild) = [Ping 800 100, Vibrate 35]"
    by simp
  from d have d': "snd (overlay_effects DEFAULT_CONFIG ?w ?ov) = [Vibration 35]"
    unfolding sv by simp
  show ?thesis
    using a' c d' by (simp add: perform_def ping_def vibrate_def)
qed

section \<open>Properties of the session log\<close>

lemma stream_inv_initial: "stream_inv (initial_stream cfg)"
  by (simp add: stream_inv_def initial_stream_def)

lemma stream_inv_tick:
  assumes "stream_inv s"
  shows "stream_inv (tick rnd1 rnd2 s)"
proof (cases "dwellLeftRef s \<le> 0")
  case True
  from tick_reselects [OF True, of rnd1 rnd2] newDwell_at_least_2 [of "pickPattern rnd1" rnd2]
  show ?thesis by (simp add: stream_inv_def)
next
  case False
  then have "0 < dwellLeftRef s" by simp
  from tick_keeps [OF this, of rnd1 rnd2] assms False
  show ?thesis by (auto simp: stream_inv_def)
qed

lemma tick_changes_seconds:
  assumes "stream_inv s"
  shows "secondsInPattern (ai (tick rnd1 rnd2 s)) \<noteq> secondsInPattern (ai s)"
proof (cases "dwellLeftRef s \<le> 0")
  case True
  from tick_reselects(2) [OF True, of rnd1 rnd2] assms True
  show ?thesis by (auto simp: stream_inv_def)
next
  case False
  then have "0 < dwellLeftRef s" by simp
  from tick_keeps(2) [OF this, of rnd1 rnd2] show ?thesis by simp
qed

lemma log_effect_after_tick:
  assumes "stream_inv s"
  shows "log_effect time (Some (log_deps (ai s))) (ai (tick rnd1 rnd2 s)) L =
           push_log (mk_entry time (ai (tick rnd1 rnd2 s))) L"
  using tick_changes_seconds [OF assms, of rnd1 rnd2]
  by (simp add: log_effect_def log_deps_def)

lemma push_log_length: "length (push_log e L) = min 40 (Suc (length L))"
  by (simp add: push_log_def)

lemma take_append_take: "take n (xs @ take n ys) = take n (xs @ ys)"
  by simp

lemma session_ticks_fst: "fst (session_ticks ins (s, L)) = run_ticks (map (\<lambda>(a, b, c). (a, b)) ins) s"
  by (induction ins "(s, L)" arbitrary: s L rule: session_ticks.induct) (simp_all add: Let_def)

lemma tick_entries_length: "length (tick_entries ins s) = length ins"
  by (induction ins s rule: tick_entries.induct) (simp_all add: Let_def)

lemma session_ticks_log:
  assumes "stream_inv s" and "length L \<le> 40"
  shows "snd (session_ticks ins (s, L)) = take 40 (rev (tick_entries ins s) @ L)"
  using assms
proof (induction ins arbitrary: s L)
  case Nil
  then show ?case by simp
next
  case (Cons x ins)
  obtain rnd1 rnd2 time where x: "x = (rnd1, rnd2, time)" by (cases x) auto
  let ?s' = "tick rnd1 rnd2 s"
  let ?e = "mk_entry time (ai ?s')"
  have inv': "stream_inv ?s'" using Cons.prems(1) by (rule stream_inv_tick)
  have len': "length (push_log ?e L) \<le> 40" by (simp add: push_log_length)
  have step: "session_ticks (x # ins) (s, L) = session_ticks ins (?s', push_log ?e L)"
    using x log_effect_after_tick [OF Cons.prems(1)] by (simp add: Let_def)
  have "snd (session_ticks ins (?s', push_log ?e L)) =
          take 40 (rev (tick_entries ins ?s') @ push_log ?e L)"
    using inv' len' by (rule Cons.IH)
  also have "\<dots> = take 40 (rev (tick_entries ins ?s') @ (?e # L))"
    unfolding push_log_def by (rule take_append_take)
  finally show ?case using step x by (simp add: Let_def)
qed

lemma session_log_closed_form:
  "snd (session_ticks ins (session_mount cfg t0)) =
     take 40 (rev (mk_entry t0 (ai (initial_stream cfg)) # tick_entries ins (initial_stream cfg)))"
  using session_ticks_log [OF stream_inv_initial, of "[mk_entry t0 (ai (initial_stream cfg))]" ins cfg]
  by (simp add: session_mount_def log_effect_def push_log_def)

lemma session_ticks_snoc:
  "session_ticks (ins @ [x]) sl = session_ticks [x] (session_ticks ins sl)"
  by (induction ins sl rule: session_ticks.induct) (simp_all add: Let_def)

lemma session_fst_inv: "stream_inv (fst (session_ticks ins (session_mount cfg t0)))"
proof -
  have "stream_inv s \<Longrightarrow> stream_inv (fst (session_ticks ins (s, L)))" for s L
    by (induction ins "(s, L)" arbitrary: s L rule: session_ticks.induct)
      (simp_all add: Let_def stream_inv_tick)
  then show ?thesis by (simp add: session_mount_def stream_inv_initial)
qed


lemma session_last_tick_prepends:
  "snd (session_ticks (ins @ [(rnd1, rnd2, time)]) (session_mount cfg t0)) =
     push_log (mk_entry time (ai (fst (session_ticks (ins @ [(rnd1, rnd2, time)]) (session_mount cfg t0)))))
       (snd (session_ticks ins (session_mount cfg t0)))"
proof -
  obtain s L where sl: "session_ticks ins (session_mount cfg t0) = (s, L)"
    by (cases "session_ticks ins (session_mount cfg t0)") auto
  have "stream_inv s"
    using session_fst_inv [of ins cfg t0] sl by simp
  then show ?thesis
    using sl by (simp add: session_ticks_snoc Let_def log_effect_after_tick)
qed

text \<open>
  Claim C6. The log effect puts the new entry in front of the log and keeps the first
  40 entries, so the result never has more than 40. Over a session (the mount with a
  configuration that has a pattern, then any ticks) every tick's entry is put in front of the log as the tick before left it; the
  log is the 40 most recent entries, most recent first, of the mount's entry followed
  by the ticks' entries. After 50 ticks the log has exactly 40 entries: the entries of
  ticks 11 to 50 in reverse chronological order.
\<close>

theorem session_log_bounded_fifo:
  assumes "patterns cfg \<noteq> []"
  shows
  "push_log e L = take 40 (e # L) \<and>
   length (push_log e L) \<le> 40 \<and>
   length (snd (session_ticks ins (session_mount cfg t0))) \<le> 40 \<and>
   snd (session_ticks (ins @ [(rnd1, rnd2, time)]) (session_mount cfg t0)) =
     push_log (mk_entry time (ai (fst (session_ticks (ins @ [(rnd1, rnd2, time)]) (session_mount cfg t0)))))
       (snd (session_ticks ins (session_mount cfg t0))) \<and>
   snd (session_ticks ins (session_mount cfg t0)) =
     take 40 (rev (mk_entry t0 (ai (initial_stream cfg)) # tick_entries ins (initial_stream cfg))) \<and>
   (length ins = 50 \<longrightarrow>
      length (tick_entries ins (initial_stream cfg)) = 50 \<and>
      length (snd (session_ticks ins (session_mount cfg t0))) = 40 \<and>
      snd (session_ticks ins (session_mount cfg t0)) =
        rev (drop 10 (tick_entries ins (initial_stream cfg))))"
proof -
  let ?log = "snd (session_ticks ins (session_mount cfg t0))"
  let ?es = "tick_entries ins (initial_stream cfg)"
  let ?e0 = "mk_entry t0 (ai (initial_stream cfg))"
  have cf: "?log = take 40 (rev (?e0 # ?es))"
    by (rule session_log_closed_form)
  then have le: "length ?log \<le> 40" by simp
  have fifty: "length ?es = 50 \<and> length ?log = 40 \<and> ?log = rev (drop 10 ?es)"
    if "length ins = 50"
  proof -
    have n: "length ?es = 50" using that by (simp add: tick_entries_length)
    have "take 40 (rev ?es @ [?e0]) = take 40 (rev ?es)" using n by simp
    also have "\<dots> = rev (drop 10 ?es)" using n by (simp add: take_rev)
    finally have "?log = rev (drop 10 ?es)" using cf by simp
    then show ?thesis using n by simp
  qed
  have p1: "push_log e L = take 40 (e # L)" by (simp add: push_log_def)
  have p2: "length (push_log e L) \<le> 40" by (simp add: push_log_length)
  show ?thesis
    using p1 p2 cf le fifty session_last_tick_prepends [of ins rnd1 rnd2 time cfg t0]
    by blast
qed

theorem session_log_bounded_fifo_witness:
  "length (replicate 50 (0::real, 0::real, ''12:00:00'')) = 50 \<and>
   length (snd (session_ticks (replicate 50 (0, 0, ''12:00:00''))
                  (session_mount DEFAULT_CONFIG ''12:00:00''))) = 40 \<and>
   snd (session_ticks (replicate 50 (0, 0, ''12:00:00'')) (session_mount DEFAULT_CONFIG ''12:00:00'')) =
     rev (drop 10 (tick_entries (replicate 50 (0, 0, ''12:00:00'')) (initial_stream DEFAULT_CONFIG)))"
proof -
  have h: "length (replicate 50 (0::real, 0::real, ''12:00:00'')) = 50" by simp
  show ?thesis
    using h session_log_bounded_fifo [OF catalog_nonempty,
        where ins = "replicate 50 (0, 0, ''12:00:00'')" and ?t0.0 = "''12:00:00''"]
    by blast
qed


section \<open>Properties of the component's transitions\<close>

lemma overlay_effects_strm: "strm (fst (overlay_effects cfg w ov)) = strm ov"
  by (simp add: overlay_effects_def Let_def)

lemma overlay_effects_logDeps:
  "logDeps (fst (overlay_effects cfg w ov)) = Some (log_deps (ai (strm ov)))"
  by (simp add: overlay_effects_def Let_def)

lemma overlay_effects_slog:
  "slog (fst (overlay_effects cfg w ov)) = log_effect (w_time w) (logDeps ov) (ai (strm ov)) (slog ov)"
  by (simp add: overlay_effects_def Let_def)

lemma overlay_effects_slog_same:
  "logDeps ov = Some (log_deps (ai (strm ov))) \<Longrightarrow> slog (fst (overlay_effects cfg w ov)) = slog ov"
  by (simp add: overlay_effects_slog log_effect_def)

text \<open>The log effect calls \<open>setLog\<close>, which renders the component once more; the effects
  after that render change nothing and emit nothing.\<close>

lemma overlay_effects_settled:
  "overlay_effects cfg w (fst (overlay_effects cfg w ov)) = (fst (overlay_effects cfg w ov), [])"
proof (cases "w_now w < snoozedUntil ov \<or> \<not> running ov")
  case True
  then show ?thesis
    by (simp add: overlay_effects_def Let_def current_render_def escalation_effect_gated
        log_effect_def)
next
  case False
  then show ?thesis
    by (simp add: overlay_effects_def Let_def current_render_def escalation_effect_active
        log_effect_def)
qed

lemma overlay_dispatch_control:
  assumes "\<forall>a b. ev \<noteq> Tick a b"
  shows "strm (overlay_dispatch w ev ov) = strm ov"
    and "slog (overlay_dispatch w ev ov) = slog ov"
    and "logDeps (overlay_dispatch w ev ov) = logDeps ov"
  using assms by (cases ev; simp add: overlay_dispatch_def)+

lemma overlay_dispatch_tick:
  "strm (overlay_dispatch w (Tick rnd1 rnd2) ov) = tick rnd1 rnd2 (strm ov)"
  "slog (overlay_dispatch w (Tick rnd1 rnd2) ov) = slog ov"
  "logDeps (overlay_dispatch w (Tick rnd1 rnd2) ov) = logDeps ov"
  by (simp_all add: overlay_dispatch_def)

lemma overlay_step_strm:
  "strm (fst (overlay_step cfg w ev ov)) =
     (case ev of Tick rnd1 rnd2 \<Rightarrow> tick rnd1 rnd2 (strm ov) | _ \<Rightarrow> strm ov)"
  by (cases ev) (simp_all add: overlay_step_def overlay_effects_strm overlay_dispatch_def)

lemma overlay_step_counters_mono:
  "sessionSec (ai (strm ov)) \<le> sessionSec (ai (strm (fst (overlay_step cfg w ev ov))))"
  "wastedSec (ai (strm ov)) \<le> wastedSec (ai (strm (fst (overlay_step cfg w ev ov))))"
  by (cases ev; simp add: overlay_step_strm tick_sessionSec tick_wastedSec)+

lemma overlay_mount_strm: "strm (fst (overlay_mount cfg w)) = initial_stream cfg"
  by (simp add: overlay_mount_def overlay_effects_strm overlay_initial_def)

lemma overlay_mount_logDeps:
  "logDeps (fst (overlay_mount cfg w)) = Some (log_deps (ai (strm (fst (overlay_mount cfg w)))))"
  by (simp add: overlay_mount_def overlay_effects_logDeps overlay_effects_strm)

text \<open>The stream and the log of the component move as \<open>session_mount\<close> and
  \<open>session_ticks\<close> describe.\<close>

lemma overlay_mount_session:
  "(strm (fst (overlay_mount cfg w)), slog (fst (overlay_mount cfg w))) = session_mount cfg (w_time w)"
  by (simp add: overlay_mount_def overlay_effects_strm overlay_effects_slog overlay_initial_def
      session_mount_def)

lemma overlay_step_tick_session:
  assumes "logDeps ov = Some (log_deps (ai (strm ov)))"
  shows "(strm (fst (overlay_step cfg w (Tick rnd1 rnd2) ov)),
          slog (fst (overlay_step cfg w (Tick rnd1 rnd2) ov))) =
         session_ticks [(rnd1, rnd2, w_time w)] (strm ov, slog ov)"
  using assms
  by (simp add: overlay_step_def overlay_effects_strm overlay_effects_slog overlay_dispatch_tick
      Let_def)

text \<open>
  Claim C9, as the code has it. The component has no reset operation: its state changes
  only by the tick and by the snooze, mute, drag-lock and pause/resume controls. No
  transition lowers \<open>sessionSec\<close> or \<open>wastedSec\<close>, and a control leaves the stream state
  (counters, pattern, dwell) as it is and, once the component has rendered, the log
  too. Zero counters, an empty log and no dwell left are the state of a newly created
  component only; there the first tick is a forced reselection.
\<close>

theorem no_reset_operation:
  assumes "patterns cfg \<noteq> []"
  shows
  "sessionSec (ai (strm (overlay_initial cfg))) = 0 \<and>
   wastedSec (ai (strm (overlay_initial cfg))) = 0 \<and>
   slog (overlay_initial cfg) = [] \<and>
   dwellLeftRef (strm (overlay_initial cfg)) = 0 \<and>
   pattern (ai (strm (fst (overlay_step cfg w (Tick rnd1 rnd2) (fst (overlay_mount cfg w0)))))) =
     pickPattern rnd1 \<and>
   secondsInPattern (ai (strm (fst (overlay_step cfg w (Tick rnd1 rnd2) (fst (overlay_mount cfg w0)))))) = 1 \<and>
   sessionSec (ai (strm ov)) \<le> sessionSec (ai (strm (fst (overlay_step cfg w ev ov)))) \<and>
   wastedSec (ai (strm ov)) \<le> wastedSec (ai (strm (fst (overlay_step cfg w ev ov)))) \<and>
   ((\<forall>a b. ev \<noteq> Tick a b) \<longrightarrow>
      strm (fst (overlay_step cfg w ev ov)) = strm ov \<and>
      (logDeps ov = Some (log_deps (ai (strm ov))) \<longrightarrow>
         slog (fst (overlay_step cfg w ev ov)) = slog ov))"
proof -
  have init: "sessionSec (ai (strm (overlay_initial cfg))) = 0"
    "wastedSec (ai (strm (overlay_initial cfg))) = 0"
    "slog (overlay_initial cfg) = []"
    "dwellLeftRef (strm (overlay_initial cfg)) = 0"
    by (simp_all add: overlay_initial_def initial_stream_def)
  have d0: "dwellLeftRef (initial_stream cfg) \<le> 0"
    by (simp add: initial_stream_def)
  have first: "pattern (ai (strm (fst (overlay_step cfg w (Tick rnd1 rnd2) (fst (overlay_mount cfg w0)))))) =
     pickPattern rnd1"
    "secondsInPattern (ai (strm (fst (overlay_step cfg w (Tick rnd1 rnd2) (fst (overlay_mount cfg w0)))))) = 1"
    using tick_reselects [OF d0, of rnd1 rnd2]
    by (simp_all add: overlay_step_strm overlay_mount_strm)
  have ctl: "strm (fst (overlay_step cfg w ev ov)) = strm ov \<and>
      (logDeps ov = Some (log_deps (ai (strm ov))) \<longrightarrow>
         slog (fst (overlay_step cfg w ev ov)) = slog ov)"
    if "\<forall>a b. ev \<noteq> Tick a b"
    using overlay_dispatch_control [OF that, of w ov]
    by (simp add: overlay_step_def overlay_effects_strm overlay_effects_slog log_effect_def)
  show ?thesis
    using init first overlay_step_counters_mono [of ov cfg w ev] ctl by blast
qed

theorem no_reset_operation_witness:
  "(\<forall>a b. ToggleRunning \<noteq> Tick a b) \<and>
   strm (fst (overlay_step DEFAULT_CONFIG
           \<lparr> w_platform = \<lparr> has_window = True, has_audio = True, has_vibrate = True \<rparr>,
             w_reducedMotion = False, w_now = 1000, w_time = ''12:00:01'' \<rparr>
           ToggleRunning
           (fst (overlay_mount DEFAULT_CONFIG
              \<lparr> w_platform = \<lparr> has_window = True, has_audio = True, has_vibrate = True \<rparr>,
                w_reducedMotion = False, w_now = 0, w_time = ''12:00:00'' \<rparr>)))) =
     initial_stream DEFAULT_CONFIG \<and>
   slog (fst (overlay_step DEFAULT_CONFIG
           \<lparr> w_platform = \<lparr> has_window = True, has_audio = True, has_vibrate = True \<rparr>,
             w_reducedMotion = False, w_now = 1000, w_time = ''12:00:01'' \<rparr>
           ToggleRunning
           (fst (overlay_mount DEFAULT_CONFIG
              \<lparr> w_platform = \<lparr> has_window = True, has_audio = True, has_vibrate = True \<rparr>,
                w_reducedMotion = False, w_now = 0, w_time = ''12:00:00'' \<rparr>)))) =
     slog (fst (overlay_mount DEFAULT_CONFIG
              \<lparr> w_platform = \<lparr> has_window = True, has_audio = True, has_vibrate = True \<rparr>,
                w_reducedMotion = False, w_now = 0, w_time = ''12:00:00'' \<rparr>)) \<and>
   sessionSec (ai (strm (overlay_initial DEFAULT_CONFIG))) = 0"
proof -
  let ?w0 = "\<lparr> w_platform = \<lparr> has_window = True, has_audio = True, has_vibrate = True \<rparr>,
                w_reducedMotion = False, w_now = 0, w_time = ''12:00:00'' \<rparr>"
  let ?w1 = "\<lparr> w_platform = \<lparr> has_window = True, has_audio = True, has_vibrate = True \<rparr>,
             w_reducedMotion = False, w_now = 1000, w_time = ''12:00:01'' \<rparr>"
  let ?ov = "fst (overlay_mount DEFAULT_CONFIG ?w0)"
  have h: "\<forall>a b. ToggleRunning \<noteq> Tick a b" by simp
  have d: "logDeps ?ov = Some (log_deps (ai (strm ?ov)))"
    by (rule overlay_mount_logDeps)
  from no_reset_operation [OF catalog_nonempty, where w = ?w1 and ev = ToggleRunning and ov = ?ov] h d
  have "strm (fst (overlay_step DEFAULT_CONFIG ?w1 ToggleRunning ?ov)) = strm ?ov"
    and "slog (fst (overlay_step DEFAULT_CONFIG ?w1 ToggleRunning ?ov)) = slog ?ov"
    and "sessionSec (ai (strm (overlay_initial DEFAULT_CONFIG))) = 0"
    by blast+
  then show ?thesis
    using h by (simp add: overlay_mount_strm)
qed

text \<open>After the mount and one tick \<open>sessionSec\<close> is 1, and no transition of the
  component, in any surroundings, brings it back to 0.\<close>

theorem reset_counterexample:
  "\<not> (\<exists>ev w. sessionSec (ai (strm (fst (overlay_step DEFAULT_CONFIG w ev
          (fst (overlay_step DEFAULT_CONFIG
             \<lparr> w_platform = \<lparr> has_window = True, has_audio = True, has_vibrate = True \<rparr>,
               w_reducedMotion = False, w_now = 1000, w_time = ''12:00:01'' \<rparr>
             (Tick 0 0)
             (fst (overlay_mount DEFAULT_CONFIG
                \<lparr> w_platform = \<lparr> has_window = True, has_audio = True, has_vibrate = True \<rparr>,
                  w_reducedMotion = False, w_now = 0, w_time = ''12:00:00'' \<rparr>)))))))) = 0)"
proof
  let ?w0 = "\<lparr> w_platform = \<lparr> has_window = True, has_audio = True, has_vibrate = True \<rparr>,
               w_reducedMotion = False, w_now = 0, w_time = ''12:00:00'' \<rparr>"
  let ?w1 = "\<lparr> w_platform = \<lparr> has_window = True, has_audio = True, has_vibrate = True \<rparr>,
               w_reducedMotion = False, w_now = 1000, w_time = ''12:00:01'' \<rparr>"
  let ?ov1 = "fst (overlay_step DEFAULT_CONFIG ?w1 (Tick 0 0) (fst (overlay_mount DEFAULT_CONFIG ?w0)))"
  assume "\<exists>ev w. sessionSec (ai (strm (fst (overlay_step DEFAULT_CONFIG w ev ?ov1)))) = 0"
  then obtain ev w where z: "sessionSec (ai (strm (fst (overlay_step DEFAULT_CONFIG w ev ?ov1)))) = 0"
    by blast
  have one: "sessionSec (ai (strm ?ov1)) = 1"
    by (simp add: overlay_step_strm overlay_mount_strm tick_sessionSec initial_stream_counters)
  from overlay_step_counters_mono(1) [of ?ov1 DEFAULT_CONFIG w ev] one z
  show False by simp
qed


end
